theory Spec2Isabelle
  imports Main "HOL-Library.Sublist" "HOL-Library.AList" "HOL-Library.Multiset"
begin

section \<open>Data model (src/types/index.ts, src/constants/index.ts)\<close>

text \<open>
  JavaScript strings are modelled as \<open>string\<close>, numbers as \<open>int\<close> (timestamps, counters
  and indices are integral), an optional field \<open>f?: T\<close> as \<open>T option\<close>.
  Record fields carry a prefix because several interfaces share the field names
  \<open>id\<close>, \<open>title\<close>, \<open>parentId\<close>, \<open>createdAt\<close>, \<open>updatedAt\<close>.

  Every operation has the reading of the clock as a parameter \<open>now\<close>: the calls of
  \<open>Date.now()\<close> within one operation are taken to return one value. An operation that calls
  \<open>uuidv4()\<close> has the supply of identifiers as a parameter: \<open>uuidv4 n\<close> is what the call
  after \<open>n\<close> earlier calls returns.
\<close>

datatype FolderState = EXPANDED | COLLAPSED

record AiGenerated =
  ai_category :: "string option"
  ai_tags :: "string list option"
  ai_summary :: "string option"
  ai_confidence :: "int option"

record Bookmark =
  bm_id :: string
  bm_title :: string
  bm_url :: string
  bm_favicon :: "string option"
  bm_description :: "string option"
  bm_categoryId :: string
  bm_tags :: "string list"
  bm_createdAt :: int
  bm_updatedAt :: int
  bm_lastVisited :: "int option"
  bm_visitCount :: int
  bm_aiGenerated :: "AiGenerated option"
  bm_originalId :: "string option"
  bm_parentId :: "string option"
  bm_index :: "int option"

text \<open>
  \<open>Category.children\<close> is only ever written by the tree projections, which return a
  tree; the flat record therefore has no such field and the projected tree is the
  datatype \<open>CategoryTree\<close> below.
\<close>

record Category =
  cat_id :: string
  cat_name :: string
  cat_parentId :: "string option"
  cat_color :: "string option"
  cat_icon :: "string option"
  cat_order :: int
  cat_createdAt :: int
  cat_updatedAt :: int
  cat_bookmarkCount :: int
  cat_isAiGenerated :: bool
  cat_builtin :: "bool option"
  cat_level :: "int option"
  cat_folderState :: "FolderState option"

record Tag =
  tag_id :: string
  tag_name :: string
  tag_color :: "string option"
  tag_count :: int
  tag_createdAt :: int
  tag_updatedAt :: int
  tag_isAiGenerated :: bool

text \<open>JavaScript truthiness of an optional string: \<open>undefined\<close> and \<open>''\<close> are falsy.\<close>

definition truthy :: "string option \<Rightarrow> bool" where
  "truthy s = (case s of None \<Rightarrow> False | Some v \<Rightarrow> v \<noteq> [])"

text \<open>
  Built-ins of the JavaScript runtime that the code calls on strings and URLs. They are
  parameters of the model: \<open>js_toLowerCase s\<close> is \<open>s.toLowerCase()\<close>, \<open>js_trim s\<close> is
  \<open>s.trim()\<close>, \<open>js_localeCompare a b\<close> is \<open>a.localeCompare(b)\<close> and \<open>js_urlOrigin u\<close> is
  \<open>new URL(u).origin\<close>, \<open>None\<close> when the constructor throws.
\<close>

record Builtins =
  js_toLowerCase :: "string \<Rightarrow> string"
  js_trim :: "string \<Rightarrow> string"
  js_localeCompare :: "string \<Rightarrow> string \<Rightarrow> int"
  js_urlOrigin :: "string \<Rightarrow> string option"

text \<open>\<open>s.includes(q)\<close>: \<open>q\<close> occurs in \<open>s\<close> as a contiguous substring.\<close>

definition str_includes :: "string \<Rightarrow> string \<Rightarrow> bool" where
  "str_includes s q = sublist q s"

text \<open>\<open>Array.prototype.findIndex\<close>; \<open>None\<close> stands for the result \<open>-1\<close>.\<close>

fun findIndex :: "('a \<Rightarrow> bool) \<Rightarrow> 'a list \<Rightarrow> nat option" where
  "findIndex P [] = None"
| "findIndex P (x # xs) = (if P x then Some 0 else map_option Suc (findIndex P xs))"

text \<open>
  \<open>Array.prototype.sort(cmp)\<close> is a stable sort (ECMAScript 2019); for the comparators of
  this code (differences of integers, \<open>localeCompare\<close>, and their negations) every stable
  sort gives the same list, here by insertion from the right.
\<close>

fun insort_by :: "('a \<Rightarrow> 'a \<Rightarrow> int) \<Rightarrow> 'a \<Rightarrow> 'a list \<Rightarrow> 'a list" where
  "insort_by cmp x [] = [x]"
| "insort_by cmp x (y # ys) = (if cmp x y \<le> 0 then x # y # ys else y # insort_by cmp x ys)"

definition sort_by :: "('a \<Rightarrow> 'a \<Rightarrow> int) \<Rightarrow> 'a list \<Rightarrow> 'a list" where
  "sort_by cmp xs = foldr (insort_by cmp) xs []"

section \<open>Aggregate maintenance: category counts\<close>

text \<open>
  The recount at the end of \<open>convertBrowserBookmarks\<close> (unnamed/part_003, lines 175-183):
  \<^verbatim>\<open>categories.map(category => ({...category,
      bookmarkCount: bookmarks.filter(b => b.categoryId === category.id).length,
      updatedAt: Date.now()}))\<close>
  \<open>now\<close> is the reading of \<open>Date.now()\<close>.
\<close>

definition recount :: "int \<Rightarrow> Bookmark list \<Rightarrow> Category list \<Rightarrow> Category list" where
  "recount now bookmarks categories =
     map (\<lambda>category. category\<lparr>
            cat_bookmarkCount := int (length (filter (\<lambda>b. bm_categoryId b = cat_id category) bookmarks)),
            cat_updatedAt := now\<rparr>) categories"

section \<open>Searching the enhanced node forest (src/utils/bookmarkHelper.ts)\<close>

text \<open>
  \<open>children?: BookmarkNode[]\<close> is a list: the code tests
  \<open>node.children && node.children.length > 0\<close>, so an absent and an empty array behave alike.
\<close>

datatype EnhancedBookmarkNode = EnhancedBookmarkNode
  (en_id: string) (en_parentId: "string option") (en_index: "int option")
  (en_url: "string option") (en_title: string) (en_dateAdded: "int option")
  (en_level: int) (en_isFolder: bool) (en_folderState: "FolderState option")
  (en_children: "EnhancedBookmarkNode list")

text \<open>The test \<open>matchesTitle || matchesUrl\<close> of the inner function \<open>search\<close>.\<close>

definition nodeMatches :: "Builtins \<Rightarrow> string \<Rightarrow> EnhancedBookmarkNode \<Rightarrow> bool" where
  "nodeMatches js lowerQuery node =
     (let matchesTitle = str_includes (js_toLowerCase js (en_title node)) lowerQuery;
          matchesUrl = (case en_url node of
                          None \<Rightarrow> False
                        | Some u \<Rightarrow> if u \<noteq> [] then str_includes (js_toLowerCase js u) lowerQuery else False)
      in matchesTitle \<or> matchesUrl)"

text \<open>
  The inner function \<open>search\<close>, with the array \<open>results\<close> it pushes to passed through:
  the node itself first, then \<open>node.children.forEach(search)\<close>.
\<close>

fun search :: "Builtins \<Rightarrow> string \<Rightarrow> EnhancedBookmarkNode \<Rightarrow> EnhancedBookmarkNode list
    \<Rightarrow> EnhancedBookmarkNode list" where
  "search js lowerQuery (EnhancedBookmarkNode i p ix u t d l f fs cs) results =
     (let node = EnhancedBookmarkNode i p ix u t d l f fs cs;
          results1 = (if nodeMatches js lowerQuery node then results @ [node] else results)
      in if cs \<noteq> [] then fold (search js lowerQuery) cs results1 else results1)"

definition searchBookmarks :: "Builtins \<Rightarrow> EnhancedBookmarkNode list \<Rightarrow> string
    \<Rightarrow> EnhancedBookmarkNode list" where
  "searchBookmarks js nodes query =
     (if query = [] then []
      else fold (search js (js_toLowerCase js query)) nodes [])"

text \<open>Depth-first order of a forest, every node before its children.\<close>

fun preorder :: "EnhancedBookmarkNode \<Rightarrow> EnhancedBookmarkNode list" where
  "preorder (EnhancedBookmarkNode i p ix u t d l f fs cs) =
     EnhancedBookmarkNode i p ix u t d l f fs cs # concat (map preorder cs)"

section \<open>The bookmark store (src/stores/bookmark.ts)\<close>

text \<open>
  \<open>storageService\<close> keeps one array per collection; \<open>getX\<close> reads it and \<open>saveX\<close>
  replaces it. The browser storage behind it is taken to answer every call.
\<close>

record Storage =
  sto_bookmarks :: "Bookmark list"
  sto_categories :: "Category list"
  sto_tags :: "Tag list"
  sto_lastSync :: int

text \<open>
  The reactive state of the store with the storage it writes through to.
  \<open>uuidv4 n\<close> is the identifier that the \<open>n\<close>-th call of \<open>uuidv4()\<close> returns and
  \<open>st_uuidCalls\<close> counts the calls made so far; \<open>now\<close> is the reading of \<open>Date.now()\<close>
  during the operation. Calls to the browser's bookmark API and to the message bus change
  nothing of this state (their failures are caught and logged) and are left out.
\<close>

record Store =
  st_bookmarks :: "Bookmark list"
  st_categories :: "Category list"
  st_tags :: "Tag list"
  st_uuidCalls :: nat
  st_storage :: Storage

definition updateCategoryBookmarkCount :: "int \<Rightarrow> string \<Rightarrow> Store \<Rightarrow> Store" where
  "updateCategoryBookmarkCount now categoryId st =
     (case findIndex (\<lambda>c. cat_id c = categoryId) (st_categories st) of
        None \<Rightarrow> st
      | Some index \<Rightarrow>
          let count = int (length (filter (\<lambda>b. bm_categoryId b = categoryId) (st_bookmarks st)));
              categories = (st_categories st)
                [index := (st_categories st ! index)\<lparr>cat_bookmarkCount := count, cat_updatedAt := now\<rparr>]
          in st\<lparr>st_categories := categories,
                st_storage := (st_storage st)\<lparr>sto_categories := categories\<rparr>\<rparr>)"

text \<open>
  \<open>tagMap\<close> of \<open>updateTags\<close> is a JavaScript \<open>Map\<close>: an association list in insertion
  order, where \<open>set\<close> on a present key replaces the value in place (\<open>AList.update\<close>).
\<close>

definition initTagMap :: "Tag list \<Rightarrow> (string \<times> Tag) list" where
  "initTagMap ts = fold (\<lambda>tag tagMap. AList.update (tag_name tag) (tag\<lparr>tag_count := 0\<rparr>) tagMap) ts []"

definition countTag :: "(nat \<Rightarrow> string) \<Rightarrow> int \<Rightarrow> string \<Rightarrow> (string \<times> Tag) list \<times> nat
    \<Rightarrow> (string \<times> Tag) list \<times> nat" where
  "countTag uuidv4 now tagName s =
     (case s of (tagMap, n) \<Rightarrow>
        (case map_of tagMap tagName of
           Some tag \<Rightarrow> (AList.update tagName (tag\<lparr>tag_count := tag_count tag + 1\<rparr>) tagMap, n)
         | None \<Rightarrow>
             (AList.update tagName
                \<lparr>tag_id = uuidv4 n, tag_name = tagName, tag_color = None, tag_count = 1,
                 tag_createdAt = now, tag_updatedAt = now, tag_isAiGenerated = False\<rparr> tagMap,
              Suc n)))"

text \<open>The parameter \<open>tagNames\<close> is not read by the function body.\<close>

definition updateTags :: "(nat \<Rightarrow> string) \<Rightarrow> int \<Rightarrow> string list \<Rightarrow> Store \<Rightarrow> Store" where
  "updateTags uuidv4 now tagNames st =
     (case fold (\<lambda>bookmark. fold (countTag uuidv4 now) (bm_tags bookmark)) (st_bookmarks st)
             (initTagMap (st_tags st), st_uuidCalls st) of
        (tagMap, n) \<Rightarrow>
          let updatedTags = filter (\<lambda>tag. tag_count tag > 0) (map snd tagMap)
          in st\<lparr>st_tags := updatedTags, st_uuidCalls := n,
                st_storage := (st_storage st)\<lparr>sto_tags := updatedTags\<rparr>\<rparr>)"

text \<open>
  \<open>changes: Partial<Bookmark>\<close> is used only in the spread \<open>{...oldBookmark, ...changes}\<close>;
  it is modelled by what that spread does to a record.
\<close>

definition updateBookmark :: "(nat \<Rightarrow> string) \<Rightarrow> int \<Rightarrow> string \<Rightarrow> (Bookmark \<Rightarrow> Bookmark) \<Rightarrow> Store
    \<Rightarrow> bool \<times> Store" where
  "updateBookmark uuidv4 now ident changes st =
     (case findIndex (\<lambda>b. bm_id b = ident) (st_bookmarks st) of
        None \<Rightarrow> (False, st)
      | Some index \<Rightarrow>
          let oldBookmark = st_bookmarks st ! index;
              oldCategoryId = bm_categoryId oldBookmark;
              oldTags = bm_tags oldBookmark;
              updatedBookmark = (changes oldBookmark)\<lparr>bm_updatedAt := now\<rparr>;
              bookmarks = (st_bookmarks st)[index := updatedBookmark];
              st1 = st\<lparr>st_bookmarks := bookmarks,
                       st_storage := (st_storage st)\<lparr>sto_bookmarks := bookmarks\<rparr>\<rparr>;
              st2 = (if oldCategoryId \<noteq> bm_categoryId updatedBookmark
                     then updateCategoryBookmarkCount now (bm_categoryId updatedBookmark)
                            (updateCategoryBookmarkCount now oldCategoryId st1)
                     else st1);
              st3 = (if oldTags \<noteq> bm_tags updatedBookmark
                     then updateTags uuidv4 now (bm_tags updatedBookmark) st2
                     else st2)
          in (True, st3))"

definition deleteBookmark :: "(nat \<Rightarrow> string) \<Rightarrow> int \<Rightarrow> string \<Rightarrow> Store \<Rightarrow> bool \<times> Store" where
  "deleteBookmark uuidv4 now ident st =
     (case findIndex (\<lambda>b. bm_id b = ident) (st_bookmarks st) of
        None \<Rightarrow> (False, st)
      | Some index \<Rightarrow>
          let bookmark = st_bookmarks st ! index;
              bookmarks = take index (st_bookmarks st) @ drop (Suc index) (st_bookmarks st);
              st1 = st\<lparr>st_bookmarks := bookmarks,
                       st_storage := (st_storage st)\<lparr>sto_bookmarks := bookmarks\<rparr>\<rparr>;
              st2 = updateCategoryBookmarkCount now (bm_categoryId bookmark) st1;
              st3 = (if length (bm_tags bookmark) > 0
                     then updateTags uuidv4 now (bm_tags bookmark) st2
                     else st2)
          in (True, st3))"


section \<open>The projection of the store: \<open>filteredBookmarks\<close> (src/stores/bookmark.ts, lines 30-104)\<close>

datatype SortBy = SortTitle | SortDateAdded | SortLastVisited | SortUrl

datatype SortOrder = Asc | Desc

record SearchParams =
  sp_keyword :: "string option"
  sp_categoryId :: "string option"
  sp_tags :: "string list option"
  sp_sortBy :: "SortBy option"
  sp_sortOrder :: "SortOrder option"

text \<open>
  The computed property is one function body; its four stages are named here after its
  comments; \<open>params\<close> is \<open>searchParams.value\<close>. Category stage, lines 36-52.
\<close>

definition categoryStage :: "int \<Rightarrow> SearchParams \<Rightarrow> Bookmark list \<Rightarrow> Bookmark list" where
  "categoryStage now params result =
     (case sp_categoryId params of
        None \<Rightarrow> result
      | Some categoryId \<Rightarrow>
          if categoryId \<noteq> [] \<and> categoryId \<noteq> ''all'' then
            if categoryId = ''uncategorized'' then
              filter (\<lambda>bookmark. bm_categoryId bookmark = [] \<or> bm_categoryId bookmark = ''uncategorized'') result
            else if categoryId = ''frequent'' then
              take 20 (sort_by (\<lambda>a b. bm_visitCount b - bm_visitCount a) result)
            else if categoryId = ''recent'' then
              let thirtyDaysAgo = now - 30 * 24 * 60 * 60 * 1000
              in filter (\<lambda>bookmark. bm_createdAt bookmark \<ge> thirtyDaysAgo) result
            else filter (\<lambda>bookmark. bm_categoryId bookmark = categoryId) result
          else result)"

text \<open>Tag stage, lines 55-59: \<open>search.tags.every(tag => bookmark.tags.includes(tag))\<close>.\<close>

definition tagStage :: "SearchParams \<Rightarrow> Bookmark list \<Rightarrow> Bookmark list" where
  "tagStage params result =
     (case sp_tags params of
        None \<Rightarrow> result
      | Some tags \<Rightarrow>
          if length tags > 0
          then filter (\<lambda>bookmark. list_all (\<lambda>tag. tag \<in> set (bm_tags bookmark)) tags) result
          else result)"

text \<open>Keyword stage, lines 62-72.\<close>

definition keywordStage :: "Builtins \<Rightarrow> SearchParams \<Rightarrow> Bookmark list \<Rightarrow> Bookmark list" where
  "keywordStage js params result =
     (case sp_keyword params of
        None \<Rightarrow> result
      | Some kw \<Rightarrow>
          if kw \<noteq> [] then
            let keyword = js_toLowerCase js kw
            in filter (\<lambda>bookmark.
                  str_includes (js_toLowerCase js (bm_title bookmark)) keyword \<or>
                  str_includes (js_toLowerCase js (bm_url bookmark)) keyword \<or>
                  (case bm_description bookmark of
                     None \<Rightarrow> False
                   | Some d \<Rightarrow> str_includes (js_toLowerCase js d) keyword) \<or>
                  list_ex (\<lambda>tag. str_includes (js_toLowerCase js tag) keyword) (bm_tags bookmark))
                result
          else result)"

text \<open>Sort stage, lines 75-99; \<open>a.lastVisited || 0\<close> reads an absent value as 0.\<close>

definition sortComparison :: "Builtins \<Rightarrow> SearchParams \<Rightarrow> Bookmark \<Rightarrow> Bookmark \<Rightarrow> int" where
  "sortComparison js params a b =
     (let comparison =
        (case sp_sortBy params of
           Some SortTitle \<Rightarrow> js_localeCompare js (bm_title a) (bm_title b)
         | Some SortDateAdded \<Rightarrow> bm_createdAt a - bm_createdAt b
         | Some SortLastVisited \<Rightarrow>
             (case bm_lastVisited a of None \<Rightarrow> 0 | Some v \<Rightarrow> v) -
             (case bm_lastVisited b of None \<Rightarrow> 0 | Some v \<Rightarrow> v)
         | Some SortUrl \<Rightarrow> js_localeCompare js (bm_url a) (bm_url b)
         | None \<Rightarrow> bm_createdAt a - bm_createdAt b)
      in if sp_sortOrder params = Some Asc then comparison else - comparison)"

text \<open>
  The result before \<open>enhanceBookmarks\<close>, which maps every record of the list to itself
  with display fields added (\<open>isFolder\<close>, \<open>level\<close>, \<open>formattedDate\<close>, \<open>relativeTime\<close>,
  \<open>path\<close>) and neither drops nor reorders records.
\<close>

definition filteredBookmarks :: "Builtins \<Rightarrow> int \<Rightarrow> SearchParams \<Rightarrow> Bookmark list \<Rightarrow> Bookmark list" where
  "filteredBookmarks js now params bookmarks =
     sort_by (sortComparison js params)
       (keywordStage js params (tagStage params (categoryStage now params bookmarks)))"

section \<open>The storage-backed service (src/services/bookmark.ts)\<close>

definition updateCategoryCount :: "int \<Rightarrow> string \<Rightarrow> int \<Rightarrow> Storage \<Rightarrow> Storage" where
  "updateCategoryCount now categoryId delta sto =
     (case findIndex (\<lambda>c. cat_id c = categoryId) (sto_categories sto) of
        None \<Rightarrow> sto
      | Some categoryIndex \<Rightarrow>
          let category = sto_categories sto ! categoryIndex
          in sto\<lparr>sto_categories := (sto_categories sto)
                  [categoryIndex := category\<lparr>cat_bookmarkCount := cat_bookmarkCount category + delta,
                                             cat_updatedAt := now\<rparr>]\<rparr>)"

definition deleteBookmark_service :: "int \<Rightarrow> string \<Rightarrow> Storage \<Rightarrow> bool \<times> Storage" where
  "deleteBookmark_service now ident sto =
     (let bookmarks = sto_bookmarks sto
      in case findIndex (\<lambda>b. bm_id b = ident) bookmarks of
           None \<Rightarrow> (False, sto)
         | Some bookmarkIndex \<Rightarrow>
             let bookmark = bookmarks ! bookmarkIndex;
                 sto1 = updateCategoryCount now (bm_categoryId bookmark) (- 1) sto
             in (True, sto1\<lparr>sto_bookmarks :=
                               take bookmarkIndex bookmarks @ drop (Suc bookmarkIndex) bookmarks\<rparr>))"

text \<open>
  \<open>searchBookmarks(keyword, categoryId, tags)\<close>, lines 547-593, on the bookmarks read from
  storage. \<open>b.visitCount || 0\<close> is \<open>b.visitCount\<close> on numbers.
\<close>

definition searchBookmarks_service :: "Builtins \<Rightarrow> int \<Rightarrow> string option \<Rightarrow> string option
    \<Rightarrow> string list option \<Rightarrow> Storage \<Rightarrow> Bookmark list" where
  "searchBookmarks_service js now keyword categoryId tags sto =
     (let filtered0 = sto_bookmarks sto;
          filtered1 =
            (case categoryId of
               None \<Rightarrow> filtered0
             | Some c \<Rightarrow>
                 if c \<noteq> [] \<and> c \<noteq> ''all'' then
                   if c = ''frequent'' then
                     take 20 (sort_by (\<lambda>a b. bm_visitCount b - bm_visitCount a) filtered0)
                   else if c = ''recent'' then
                     let oneWeekAgo = now - 7 * 24 * 60 * 60 * 1000
                     in sort_by (\<lambda>a b. bm_createdAt b - bm_createdAt a)
                          (filter (\<lambda>b. bm_createdAt b > oneWeekAgo) filtered0)
                   else if c = ''uncategorized'' then
                     filter (\<lambda>b. bm_categoryId b = ''uncategorized'') filtered0
                   else filter (\<lambda>b. bm_categoryId b = c) filtered0
                 else filtered0);
          filtered2 =
            (case tags of
               None \<Rightarrow> filtered1
             | Some ts \<Rightarrow>
                 if length ts > 0
                 then filter (\<lambda>b. list_ex (\<lambda>tagId. tagId \<in> set (bm_tags b)) ts) filtered1
                 else filtered1);
          filtered3 =
            (case keyword of
               None \<Rightarrow> filtered2
             | Some kw \<Rightarrow>
                 if kw \<noteq> [] \<and> js_trim js kw \<noteq> [] then
                   let searchTerm = js_toLowerCase js (js_trim js kw)
                   in filter (\<lambda>b.
                         str_includes (js_toLowerCase js (bm_title b)) searchTerm \<or>
                         str_includes (js_toLowerCase js (bm_url b)) searchTerm \<or>
                         (case bm_description b of
                            None \<Rightarrow> False
                          | Some d \<Rightarrow> d \<noteq> [] \<and> str_includes (js_toLowerCase js d) searchTerm))
                       filtered2
                 else filtered2)
      in filtered3)"

section \<open>Synchronisation: \<open>convertBrowserBookmarks\<close> (unnamed/part_003, lines 102-186)\<close>

text \<open>
  A node of the browser's bookmark tree (\<open>BrowserBookmarkNode\<close>, src/types/index.ts).
  \<open>children\<close> is a list: the code only tests \<open>if (node.children)\<close> before \<open>forEach\<close>, so
  an absent and an empty array behave alike. \<open>flattenBookmarkTree\<close> yields such nodes
  without children.
\<close>

datatype BrowserBookmarkNode = BrowserBookmarkNode
  (bn_id: string) (bn_parentId: "string option") (bn_index: "int option")
  (bn_url: "string option") (bn_title: string) (bn_dateAdded: "int option")
  (bn_dateGroupModified: "int option") (bn_children: "BrowserBookmarkNode list")

text \<open>
  String literals outside ASCII are given by their UTF-8 bytes.
\<close>

definition utf8 :: "nat list \<Rightarrow> string" where
  "utf8 bytes = map char_of bytes"

text \<open>
  \<open>DEFAULT_CATEGORIES.map(cat => ({...cat, id: cat.id, name: cat.name, order: 0,
  createdAt: Date.now(), updatedAt: Date.now(), bookmarkCount: 0, isAiGenerated: false}))\<close>:
  the spread keeps \<open>icon\<close> and \<open>builtin: true\<close> of the constant table.
\<close>

definition defaultCategory :: "string \<Rightarrow> string \<Rightarrow> string \<Rightarrow> int \<Rightarrow> Category" where
  "defaultCategory ident name icon now =
     \<lparr>cat_id = ident, cat_name = name, cat_parentId = None, cat_color = None,
      cat_icon = Some icon, cat_order = 0, cat_createdAt = now, cat_updatedAt = now,
      cat_bookmarkCount = 0, cat_isAiGenerated = False, cat_builtin = Some True,
      cat_level = None, cat_folderState = None\<rparr>"

definition DEFAULT_CATEGORIES :: "int \<Rightarrow> Category list" where
  "DEFAULT_CATEGORIES now =
     [defaultCategory ''all''
        (utf8 [0xE6, 0x89, 0x80, 0xE6, 0x9C, 0x89, 0xE4, 0xB9, 0xA6, 0xE7, 0xAD, 0xBE]) ''bookmark'' now,
      defaultCategory ''frequent''
        (utf8 [0xE5, 0xB8, 0xB8, 0xE7, 0x94, 0xA8, 0xE4, 0xB9, 0xA6, 0xE7, 0xAD, 0xBE]) ''star'' now,
      defaultCategory ''recent''
        (utf8 [0xE6, 0x9C, 0x80, 0xE8, 0xBF, 0x91, 0xE6, 0xB7, 0xBB, 0xE5, 0x8A, 0xA0]) ''clock'' now,
      defaultCategory ''uncategorized''
        (utf8 [0xE6, 0x9C, 0xAA, 0xE5, 0x88, 0x86, 0xE7, 0xB1, 0xBB]) ''folder'' now]"

text \<open>
  The fallback title of \<open>convertBrowserBookmarks\<close>, line 152.
\<close>

definition unnamedBookmark :: string where
  "unnamedBookmark =
     utf8 [0xE6, 0x9C, 0xAA, 0xE5, 0x91, 0xBD, 0xE5, 0x90, 0x8D, 0xE4, 0xB9, 0xA6, 0xE7, 0xAD, 0xBE]"

text \<open>
  \<open>v || d\<close> on an optional number: \<open>undefined\<close> and \<open>0\<close> are falsy.
\<close>

definition orElse :: "int option \<Rightarrow> int \<Rightarrow> int" where
  "orElse v d = (case v of None \<Rightarrow> d | Some n \<Rightarrow> if n \<noteq> 0 then n else d)"

text \<open>
  \<open>new Map(storedBookmarks.map(b => [b.originalId, b]))\<close>: keyed by the optional
  \<open>originalId\<close>, a later entry replacing an earlier one with the same key.
\<close>

definition bookmarkMapOf :: "Bookmark list \<Rightarrow> (string option \<times> Bookmark) list" where
  "bookmarkMapOf storedBookmarks =
     fold (\<lambda>b m. AList.update (bm_originalId b) b m) storedBookmarks []"

text \<open>
  Lines 162-170: a bookmark without favicon gets \<open>chrome://favicon/\<close> followed by the
  origin of its url, unless the url does not parse.
\<close>

definition withFavicon :: "Builtins \<Rightarrow> Bookmark \<Rightarrow> Bookmark" where
  "withFavicon js bookmark =
     (if \<not> truthy (bm_favicon bookmark) then
        (case js_urlOrigin js (bm_url bookmark) of
           Some origin \<Rightarrow> bookmark\<lparr>bm_favicon := Some (''chrome://favicon/'' @ origin)\<rparr>
         | None \<Rightarrow> bookmark)
      else bookmark)"

text \<open>
  One turn of the loop over \<open>browserBookmarks\<close>, lines 126-173, on the array
  \<open>bookmarks\<close> and the number of \<open>uuidv4()\<close> calls made so far. \<open>node.url || existingBookmark.url\<close>
  is \<open>node.url\<close>, which is truthy here.
\<close>

definition convertNode :: "Builtins \<Rightarrow> (nat \<Rightarrow> string) \<Rightarrow> int \<Rightarrow> (string option \<times> Bookmark) list
    \<Rightarrow> BrowserBookmarkNode \<Rightarrow> Bookmark list \<times> nat \<Rightarrow> Bookmark list \<times> nat" where
  "convertNode js uuidv4 now bookmarkMap node acc =
     (case acc of (bookmarks, n) \<Rightarrow>
        (case bn_url node of
           None \<Rightarrow> (bookmarks, n)
         | Some url \<Rightarrow>
             if url = [] then (bookmarks, n)
             else
               (case map_of bookmarkMap (Some (bn_id node)) of
                  Some existingBookmark \<Rightarrow>
                    (bookmarks @ [withFavicon js (existingBookmark\<lparr>
                        bm_title := (if bn_title node \<noteq> [] then bn_title node
                                     else bm_title existingBookmark),
                        bm_url := url,
                        bm_updatedAt := now,
                        bm_originalId := Some (bn_id node)\<rparr>)], n)
                | None \<Rightarrow>
                    (bookmarks @ [withFavicon js
                       \<lparr>bm_id = uuidv4 n,
                        bm_title = (if bn_title node \<noteq> [] then bn_title node else unnamedBookmark),
                        bm_url = url, bm_favicon = None, bm_description = None,
                        bm_categoryId = ''uncategorized'', bm_tags = [],
                        bm_createdAt = orElse (bn_dateAdded node) now, bm_updatedAt = now,
                        bm_lastVisited = None, bm_visitCount = 0, bm_aiGenerated = None,
                        bm_originalId = Some (bn_id node), bm_parentId = None,
                        bm_index = None\<rparr>], Suc n))))"

definition convertBrowserBookmarks :: "Builtins \<Rightarrow> (nat \<Rightarrow> string) \<Rightarrow> int \<Rightarrow> BrowserBookmarkNode list
    \<Rightarrow> Bookmark list \<Rightarrow> Category list \<Rightarrow> Bookmark list \<times> Category list" where
  "convertBrowserBookmarks js uuidv4 now browserBookmarks storedBookmarks storedCategories =
     (let categories = (if length storedCategories > 0 then storedCategories
                        else DEFAULT_CATEGORIES now);
          bookmarkMap = bookmarkMapOf storedBookmarks;
          bookmarks = fst (fold (convertNode js uuidv4 now bookmarkMap) browserBookmarks ([], 0))
      in (bookmarks, recount now bookmarks categories))"

section \<open>Synchronisation: \<open>syncBookmarks\<close> of the service (src/services/bookmark.ts, lines 92-221)\<close>

text \<open>
  \<open>syncBookmarks\<close> of src/services/bookmark.ts, lines 92-221. It throws when the browser
  returns no tree.
\<close>

datatype SyncError = HostUnavailable

text \<open>
  The variables that the inner function \<open>processBookmarkNode\<close> writes: the array
  \<open>bookmarks\<close>, the array \<open>newCategories\<close>, the map \<open>categoryMap\<close> and the number of
  \<open>uuidv4()\<close> calls. \<open>categoryMap\<close> holds the very objects of \<open>newCategories\<close>
  (\<open>[...existingCategories]\<close> copies the array, not the objects), so
  \<open>category.bookmarkCount += 1\<close> shows in \<open>newCategories\<close>: the map gives the position
  of the object in \<open>newCategories\<close>.
\<close>

record SyncState =
  sy_bookmarks :: "Bookmark list"
  sy_newCategories :: "Category list"
  sy_categoryMap :: "(string \<times> nat) list"
  sy_uuidCalls :: nat

text \<open>
  Lines 105-111: only bookmarks with a truthy \<open>originalId\<close> enter the map.
\<close>

definition bookmarkMapOfSync :: "Bookmark list \<Rightarrow> (string \<times> Bookmark) list" where
  "bookmarkMapOfSync existingBookmarks =
     fold (\<lambda>bookmark m.
             case bm_originalId bookmark of
               None \<Rightarrow> m
             | Some originalId \<Rightarrow> if originalId \<noteq> [] then AList.update originalId bookmark m else m)
       existingBookmarks []"

text \<open>
  Lines 118-119: \<open>existingCategories.forEach(cat => categoryMap.set(cat.id, cat))\<close>, the
  object of a category being its position in \<open>newCategories\<close>.
\<close>

definition categoryMapOfSync :: "Category list \<Rightarrow> (string \<times> nat) list" where
  "categoryMapOfSync existingCategories =
     fold (\<lambda>(i, cat) m. AList.update (cat_id cat) i m) (enumerate 0 existingCategories) []"

text \<open>
  The category created for a folder, lines 144-154.
\<close>

definition newFolderCategory :: "int \<Rightarrow> string \<Rightarrow> BrowserBookmarkNode \<Rightarrow> string option \<Rightarrow> Category" where
  "newFolderCategory now categoryId node parentCategoryId =
     \<lparr>cat_id = categoryId, cat_name = bn_title node, cat_parentId = parentCategoryId,
      cat_color = None, cat_icon = None,
      cat_order = (case bn_index node of None \<Rightarrow> 0 | Some ix \<Rightarrow> ix),
      cat_createdAt = orElse (bn_dateAdded node) now, cat_updatedAt = now,
      cat_bookmarkCount = 0, cat_isAiGenerated = False, cat_builtin = None,
      cat_level = None, cat_folderState = Some COLLAPSED\<rparr>"

text \<open>
  The bookmark built in lines 179-197. \<open>existingBookmark?.tags || []\<close> and
  \<open>existingBookmark?.visitCount || 0\<close> are the existing values when there is an existing
  bookmark; \<open>description\<close> and \<open>lastVisited\<close> are not copied.
\<close>

definition syncedBookmark :: "int \<Rightarrow> string \<Rightarrow> string \<Rightarrow> string \<Rightarrow> BrowserBookmarkNode
    \<Rightarrow> Bookmark option \<Rightarrow> Bookmark" where
  "syncedBookmark now ident url categoryId node existingBookmark =
     \<lparr>bm_id = ident, bm_title = bn_title node, bm_url = url,
      bm_favicon = Some (''chrome://favicon/'' @ url), bm_description = None,
      bm_categoryId = categoryId,
      bm_tags = (case existingBookmark of None \<Rightarrow> [] | Some e \<Rightarrow> bm_tags e),
      bm_createdAt = (case existingBookmark of
                        None \<Rightarrow> orElse (bn_dateAdded node) now
                      | Some e \<Rightarrow> if bm_createdAt e \<noteq> 0 then bm_createdAt e
                                  else orElse (bn_dateAdded node) now),
      bm_updatedAt = now, bm_lastVisited = None,
      bm_visitCount = (case existingBookmark of None \<Rightarrow> 0 | Some e \<Rightarrow> bm_visitCount e),
      bm_aiGenerated = (case existingBookmark of None \<Rightarrow> None | Some e \<Rightarrow> bm_aiGenerated e),
      bm_originalId = Some (bn_id node), bm_parentId = bn_parentId node,
      bm_index = bn_index node\<rparr>"

text \<open>
  Lines 177-205: \<open>existingBookmark?.id || uuidv4()\<close> calls \<open>uuidv4\<close> only when there is
  no usable id; the count of the category found under \<open>categoryId\<close> grows by one.
\<close>

definition createBookmark :: "(nat \<Rightarrow> string) \<Rightarrow> int \<Rightarrow> BrowserBookmarkNode \<Rightarrow> string
    \<Rightarrow> string option \<Rightarrow> Bookmark option \<Rightarrow> SyncState \<Rightarrow> SyncState" where
  "createBookmark uuidv4 now node url parentCategoryId existingBookmark st =
     (let categoryId = (case parentCategoryId of
                          None \<Rightarrow> ''uncategorized''
                        | Some c \<Rightarrow> if c \<noteq> [] then c else ''uncategorized'');
          reusedId = (case existingBookmark of
                        None \<Rightarrow> None
                      | Some e \<Rightarrow> if bm_id e \<noteq> [] then Some (bm_id e) else None);
          ident = (case reusedId of Some v \<Rightarrow> v | None \<Rightarrow> uuidv4 (sy_uuidCalls st));
          bookmark = syncedBookmark now ident url categoryId node existingBookmark;
          categories =
            (case map_of (sy_categoryMap st) categoryId of
               None \<Rightarrow> sy_newCategories st
             | Some k \<Rightarrow>
                 (sy_newCategories st)
                   [k := (sy_newCategories st ! k)\<lparr>cat_bookmarkCount :=
                            cat_bookmarkCount (sy_newCategories st ! k) + 1\<rparr>])
      in st\<lparr>sy_bookmarks := sy_bookmarks st @ [bookmark],
            sy_newCategories := categories,
            sy_uuidCalls := (case reusedId of Some v \<Rightarrow> sy_uuidCalls st
                                            | None \<Rightarrow> Suc (sy_uuidCalls st))\<rparr>)"

text \<open>
  Lines 168-175: an existing bookmark at least as recent as the node's \<open>dateAdded\<close> is
  kept as it is.
\<close>

definition processLeaf :: "(nat \<Rightarrow> string) \<Rightarrow> int \<Rightarrow> (string \<times> Bookmark) list \<Rightarrow> BrowserBookmarkNode
    \<Rightarrow> string \<Rightarrow> string option \<Rightarrow> SyncState \<Rightarrow> SyncState" where
  "processLeaf uuidv4 now bookmarkMap node url parentCategoryId st =
     (case map_of bookmarkMap (bn_id node) of
        None \<Rightarrow> createBookmark uuidv4 now node url parentCategoryId None st
      | Some existingBookmark \<Rightarrow>
          if bm_updatedAt existingBookmark \<ge> orElse (bn_dateAdded node) 0
          then st\<lparr>sy_bookmarks := sy_bookmarks st @ [existingBookmark]\<rparr>
          else createBookmark uuidv4 now node url parentCategoryId (Some existingBookmark) st)"

fun processBookmarkNode :: "(nat \<Rightarrow> string) \<Rightarrow> int \<Rightarrow> Category list \<Rightarrow> (string \<times> Bookmark) list
    \<Rightarrow> BrowserBookmarkNode \<Rightarrow> string option \<Rightarrow> SyncState \<Rightarrow> SyncState" where
  "processBookmarkNode uuidv4 now existingCategories bookmarkMap
       (BrowserBookmarkNode i p ix u t d g cs) parentCategoryId st =
     (if \<not> truthy p then
        fold (\<lambda>child. processBookmarkNode uuidv4 now existingCategories bookmarkMap child None) cs st
      else if \<not> truthy u then
        (case find (\<lambda>c. cat_name c = t \<and> cat_builtin c \<noteq> Some True) existingCategories of
           Some existingCategory \<Rightarrow>
             fold (\<lambda>child. processBookmarkNode uuidv4 now existingCategories bookmarkMap child
                             (Some (cat_id existingCategory))) cs st
         | None \<Rightarrow>
             fold (\<lambda>child. processBookmarkNode uuidv4 now existingCategories bookmarkMap child
                             (Some (uuidv4 (sy_uuidCalls st)))) cs
               (st\<lparr>sy_newCategories := sy_newCategories st @
                       [newFolderCategory now (uuidv4 (sy_uuidCalls st))
                          (BrowserBookmarkNode i p ix u t d g cs) parentCategoryId],
                    sy_categoryMap := AList.update (uuidv4 (sy_uuidCalls st))
                                        (length (sy_newCategories st)) (sy_categoryMap st),
                    sy_uuidCalls := Suc (sy_uuidCalls st)\<rparr>))
      else
        processLeaf uuidv4 now bookmarkMap (BrowserBookmarkNode i p ix u t d g cs)
          (case u of Some url \<Rightarrow> url | None \<Rightarrow> []) parentCategoryId st)"

definition syncBookmarks :: "(nat \<Rightarrow> string) \<Rightarrow> int \<Rightarrow> BrowserBookmarkNode list \<Rightarrow> Storage
    \<Rightarrow> SyncError + Storage" where
  "syncBookmarks uuidv4 now rootNode sto =
     (case rootNode of
        [] \<Rightarrow> Inl HostUnavailable
      | root # _ \<Rightarrow>
          let existingBookmarks = sto_bookmarks sto;
              existingCategories = sto_categories sto;
              st = fold (\<lambda>child. processBookmarkNode uuidv4 now existingCategories
                                   (bookmarkMapOfSync existingBookmarks) child None)
                     (bn_children root)
                     \<lparr>sy_bookmarks = [], sy_newCategories = existingCategories,
                      sy_categoryMap = categoryMapOfSync existingCategories, sy_uuidCalls = 0\<rparr>
          in Inr (sto\<lparr>sto_bookmarks := sy_bookmarks st, sto_categories := sy_newCategories st,
                      sto_lastSync := now\<rparr>))"

section \<open>The category tree (unnamed/part_003, \<open>buildCategoryTree\<close>, lines 219-256)\<close>

text \<open>
  The projected tree: a node is the category record \<open>{...child, level, folderState}\<close>
  with its \<open>children\<close>.
\<close>

datatype CategoryTree = CategoryTree (ct_category: Category) (ct_children: "CategoryTree list")

text \<open>\<open>category.parentId || 'root'\<close>.\<close>

definition parentKey :: "Category \<Rightarrow> string" where
  "parentKey category =
     (case cat_parentId category of None \<Rightarrow> ''root'' | Some p \<Rightarrow> if p \<noteq> [] then p else ''root'')"

text \<open>
  \<open>categoryMap\<close> is a JavaScript \<open>Map\<close> from parent id to the array of children; the
  first \<open>forEach\<close> gives every parent id an empty array, the second appends the
  categories.
\<close>

definition categoryMapInit :: "Category list \<Rightarrow> (string \<times> Category list) list" where
  "categoryMapInit categories =
     fold (\<lambda>category categoryMap.
             let parentId = parentKey category
             in if map_of categoryMap parentId = None
                then AList.update parentId [] categoryMap else categoryMap)
       categories []"

definition categoryMapFill :: "Category list \<Rightarrow> (string \<times> Category list) list
    \<Rightarrow> (string \<times> Category list) list" where
  "categoryMapFill categories categoryMap0 =
     fold (\<lambda>category categoryMap.
             let parentId = parentKey category;
                 children = (case map_of categoryMap parentId of None \<Rightarrow> [] | Some cs \<Rightarrow> cs)
             in AList.update parentId (children @ [category]) categoryMap)
       categories categoryMap0"

text \<open>\<open>level < 1 ? FolderState.EXPANDED : FolderState.COLLAPSED\<close>.\<close>

definition defaultFolderState :: "int \<Rightarrow> FolderState" where
  "defaultFolderState level = (if level < 1 then EXPANDED else COLLAPSED)"

text \<open>
  The inner function \<open>buildTree\<close> calls itself for every child and does not end when a
  category is reachable from itself along the parent links. The first argument bounds the
  depth of the calls; \<open>None\<close> means the bound was reached.
\<close>

fun buildTree :: "nat \<Rightarrow> (string \<times> Category list) list \<Rightarrow> string \<Rightarrow> int \<Rightarrow> CategoryTree list option" where
  "buildTree 0 categoryMap parentId level = None"
| "buildTree (Suc fuel) categoryMap parentId level =
     (let children = (case map_of categoryMap parentId of None \<Rightarrow> [] | Some cs \<Rightarrow> cs)
      in map_option (sort_by (\<lambda>a b. cat_order (ct_category a) - cat_order (ct_category b)))
           (those (map (\<lambda>child.
                     map_option (\<lambda>childCategories.
                         CategoryTree (child\<lparr>cat_level := Some level,
                                              cat_folderState := Some (defaultFolderState level)\<rparr>)
                           childCategories)
                       (buildTree fuel categoryMap (cat_id child) (level + 1)))
                  children)))"

definition buildCategoryTree :: "nat \<Rightarrow> Category list \<Rightarrow> CategoryTree list option" where
  "buildCategoryTree fuel categories =
     buildTree fuel (categoryMapFill categories (categoryMapInit categories)) ''root'' 0"

section \<open>Notions of the specification and invariants of the proofs\<close>

text \<open>
  The bookmarks ordered by \<open>visitCount\<close>, highest first, bookmarks with equal
  \<open>visitCount\<close> in the order of the original array: the library's stable sort on the
  negated count.
\<close>

definition byVisitCountDesc :: "Bookmark list \<Rightarrow> Bookmark list" where
  "byVisitCountDesc bookmarks = sort_key (\<lambda>b. - bm_visitCount b) bookmarks"

text \<open>
  The filters that follow the category filter, as predicates on one bookmark. In the store's
  projection: the bookmark carries every requested tag; the keyword, when there is one,
  occurs in the title, the url, the description or a tag, case-insensitively. In the
  service's \<open>searchBookmarks\<close>: the bookmark carries one of the requested tags; the
  trimmed keyword, when it is not empty, occurs in the title, the url or a non-empty
  description.
\<close>

definition carriesEveryTag :: "string list option \<Rightarrow> Bookmark \<Rightarrow> bool" where
  "carriesEveryTag tags b \<longleftrightarrow>
     (case tags of None \<Rightarrow> True | Some ts \<Rightarrow> set ts \<subseteq> set (bm_tags b))"

definition mentionsKeyword :: "Builtins \<Rightarrow> string option \<Rightarrow> Bookmark \<Rightarrow> bool" where
  "mentionsKeyword js keyword b \<longleftrightarrow>
     (case keyword of
        None \<Rightarrow> True
      | Some kw \<Rightarrow>
          kw = [] \<or>
          str_includes (js_toLowerCase js (bm_title b)) (js_toLowerCase js kw) \<or>
          str_includes (js_toLowerCase js (bm_url b)) (js_toLowerCase js kw) \<or>
          (case bm_description b of
             None \<Rightarrow> False
           | Some d \<Rightarrow> str_includes (js_toLowerCase js d) (js_toLowerCase js kw)) \<or>
          (\<exists>t \<in> set (bm_tags b). str_includes (js_toLowerCase js t) (js_toLowerCase js kw)))"

definition carriesSomeTag :: "string list option \<Rightarrow> Bookmark \<Rightarrow> bool" where
  "carriesSomeTag tags b \<longleftrightarrow>
     (case tags of None \<Rightarrow> True | Some ts \<Rightarrow> ts = [] \<or> (\<exists>t \<in> set ts. t \<in> set (bm_tags b)))"

definition mentionsTerm :: "Builtins \<Rightarrow> string option \<Rightarrow> Bookmark \<Rightarrow> bool" where
  "mentionsTerm js keyword b \<longleftrightarrow>
     (case keyword of
        None \<Rightarrow> True
      | Some kw \<Rightarrow>
          kw = [] \<or> js_trim js kw = [] \<or>
          str_includes (js_toLowerCase js (bm_title b)) (js_toLowerCase js (js_trim js kw)) \<or>
          str_includes (js_toLowerCase js (bm_url b)) (js_toLowerCase js (js_trim js kw)) \<or>
          (case bm_description b of
             None \<Rightarrow> False
           | Some d \<Rightarrow> d \<noteq> [] \<and> str_includes (js_toLowerCase js d) (js_toLowerCase js (js_trim js kw))))"

text \<open>
  The invariant of the counting loop of \<open>updateTags\<close>: after the tag names \<open>seen\<close> have
  been processed, the map has one entry per key, every name seen is a key, and the entry
  of a key carries that name and the number of its occurrences so far.
\<close>

definition tagInv :: "(string \<times> Tag) list \<Rightarrow> string list \<Rightarrow> bool" where
  "tagInv m seen \<longleftrightarrow>
     distinct (map fst m) \<and> set seen \<subseteq> fst ` set m \<and>
     (\<forall>k t. map_of m k = Some t \<longrightarrow> tag_name t = k \<and> tag_count t = int (count_list seen k))"


definition reassignStep :: "(nat \<Rightarrow> string) \<Rightarrow> int \<Rightarrow> Bookmark \<Rightarrow> Store \<Rightarrow> Store" where
  "reassignStep uuidv4 now bookmark s =
     snd (updateBookmark uuidv4 now (bm_id bookmark) (\<lambda>b. b\<lparr>bm_categoryId := ''uncategorized''\<rparr>) s)"

text \<open>
  The sibling group of a parent id: the categories with that parent, by \<open>order\<close>
  ascending, equal \<open>order\<close> in the order of the list. \<open>projected categories level c t\<close>:
  the tree \<open>t\<close> is category \<open>c\<close> at level \<open>level\<close> with the folder state of that level,
  over the projections of the sibling group of \<open>c\<close> one level down.
\<close>

definition siblingGroup :: "Category list \<Rightarrow> string \<Rightarrow> Category list" where
  "siblingGroup categories parentId =
     sort_key cat_order (filter (\<lambda>c. parentKey c = parentId) categories)"

fun projected :: "Category list \<Rightarrow> int \<Rightarrow> Category \<Rightarrow> CategoryTree \<Rightarrow> bool" where
  "projected categories level c (CategoryTree c' ts) \<longleftrightarrow>
     c' = c\<lparr>cat_level := Some level, cat_folderState := Some (defaultFolderState level)\<rparr> \<and>
     list_all2 (projected categories (level + 1)) (siblingGroup categories (cat_id c)) ts"

text \<open>
  The bookmark nodes (nodes with a url) of a flat host sequence, and the relation between a
  record and the node it was converted from that a second conversion relies on.
\<close>

definition hostLeaves :: "BrowserBookmarkNode list \<Rightarrow> BrowserBookmarkNode list" where
  "hostLeaves nodes = filter (\<lambda>n. truthy (bn_url n)) nodes"

definition mirrors :: "Builtins \<Rightarrow> Bookmark \<Rightarrow> BrowserBookmarkNode \<Rightarrow> bool" where
  "mirrors js b n \<longleftrightarrow>
     bm_originalId b = Some (bn_id n) \<and> bn_url n = Some (bm_url b) \<and>
     (bn_title n \<noteq> [] \<longrightarrow> bm_title b = bn_title n) \<and> withFavicon js b = b"

text \<open>
  The bookmark nodes and the folder nodes that \<open>processBookmarkNode\<close> reaches in a tree:
  a node without \<open>parentId\<close> is skipped and its children are visited; a node without url
  is a folder; any other node is a bookmark and its children are not visited.
\<close>

fun visitedLeaves :: "BrowserBookmarkNode \<Rightarrow> BrowserBookmarkNode list" where
  "visitedLeaves (BrowserBookmarkNode i p ix u t d g cs) =
     (if \<not> truthy p \<or> \<not> truthy u then concat (map visitedLeaves cs)
      else [BrowserBookmarkNode i p ix u t d g cs])"

fun visitedFolders :: "BrowserBookmarkNode \<Rightarrow> BrowserBookmarkNode list" where
  "visitedFolders (BrowserBookmarkNode i p ix u t d g cs) =
     (if \<not> truthy p then concat (map visitedFolders cs)
      else if \<not> truthy u then BrowserBookmarkNode i p ix u t d g cs # concat (map visitedFolders cs)
      else [])"

text \<open>
  Invariants of one pass of \<open>syncBookmarks\<close>. \<open>fresh now b l\<close>: the record \<open>b\<close> belongs to
  the node \<open>l\<close> and is not older than it (when the node is not dated after \<open>now\<close>).
  \<open>passOk\<close>: a step appends one such record per bookmark node, only appends categories or
  changes counts, and leaves a category that is not builtin for every folder name.
  \<open>passAgain\<close>: a step only appends the records found in the map.
\<close>

definition namePairs :: "Category list \<Rightarrow> (string \<times> bool option) list" where
  "namePairs cs = map (\<lambda>c. (cat_name c, cat_builtin c)) cs"

definition fresh :: "int \<Rightarrow> Bookmark \<Rightarrow> BrowserBookmarkNode \<Rightarrow> bool" where
  "fresh now b l \<longleftrightarrow>
     bm_originalId b = Some (bn_id l) \<and>
     (orElse (bn_dateAdded l) 0 \<le> now \<longrightarrow> orElse (bn_dateAdded l) 0 \<le> bm_updatedAt b)"

definition keyed :: "(string \<times> Bookmark) list \<Rightarrow> bool" where
  "keyed m \<longleftrightarrow> (\<forall>k e. map_of m k = Some e \<longrightarrow> bm_originalId e = Some k)"

definition hasFolder :: "Category list \<Rightarrow> BrowserBookmarkNode \<Rightarrow> bool" where
  "hasFolder cs f \<longleftrightarrow> (\<exists>bi. (bn_title f, bi) \<in> set (namePairs cs) \<and> bi \<noteq> Some True)"

definition passOk :: "int \<Rightarrow> Category list \<Rightarrow> (SyncState \<Rightarrow> SyncState) \<Rightarrow> BrowserBookmarkNode list
    \<Rightarrow> BrowserBookmarkNode list \<Rightarrow> bool" where
  "passOk now E F leaves folders \<longleftrightarrow>
     (\<forall>st. prefix (namePairs E) (namePairs (sy_newCategories st)) \<longrightarrow>
        (\<exists>bs. sy_bookmarks (F st) = sy_bookmarks st @ bs \<and> list_all2 (fresh now) bs leaves) \<and>
        prefix (namePairs (sy_newCategories st)) (namePairs (sy_newCategories (F st))) \<and>
        (\<forall>f \<in> set folders. hasFolder (sy_newCategories (F st)) f))"

definition passAgain :: "(string \<times> Bookmark) list \<Rightarrow> (SyncState \<Rightarrow> SyncState) \<Rightarrow> BrowserBookmarkNode list
    \<Rightarrow> bool" where
  "passAgain m F leaves \<longleftrightarrow>
     (\<forall>st. F st = st\<lparr>sy_bookmarks := sy_bookmarks st @ map (\<lambda>l. the (map_of m (bn_id l))) leaves\<rparr>)"

text \<open>
  The bookmark nodes that \<open>syncBookmarks\<close> reaches below the first root.
\<close>

definition hostLeavesOfTree :: "BrowserBookmarkNode \<Rightarrow> BrowserBookmarkNode list" where
  "hostLeavesOfTree root = concat (map visitedLeaves (bn_children root))"

section \<open>Example data\<close>

text \<open>
  Concrete values on which the theorems below are instantiated. \<open>exampleBuiltins\<close>
  lower-cases the ASCII letters, which is what \<open>toLowerCase\<close> does on ASCII strings.
\<close>

definition asciiLower :: "char \<Rightarrow> char" where
  "asciiLower c =
     (case map_of (zip ''ABCDEFGHIJKLMNOPQRSTUVWXYZ'' ''abcdefghijklmnopqrstuvwxyz'') c of
        Some l \<Rightarrow> l
      | None \<Rightarrow> c)"

fun byteCompare :: "string \<Rightarrow> string \<Rightarrow> int" where
  "byteCompare [] [] = 0"
| "byteCompare [] (y # ys) = - 1"
| "byteCompare (x # xs) [] = 1"
| "byteCompare (x # xs) (y # ys) =
     (if (of_char x :: nat) < of_char y then - 1
      else if (of_char y :: nat) < of_char x then 1
      else byteCompare xs ys)"

definition exampleBuiltins :: Builtins where
  "exampleBuiltins =
     \<lparr>js_toLowerCase = map asciiLower,
      js_trim = (\<lambda>s. rev (dropWhile (\<lambda>c. c = CHR '' '') (rev (dropWhile (\<lambda>c. c = CHR '' '') s)))),
      js_localeCompare = byteCompare,
      js_urlOrigin = (\<lambda>u. if u = [] then None else Some u)\<rparr>"

definition exampleLeaf :: "string \<Rightarrow> string \<Rightarrow> string \<Rightarrow> EnhancedBookmarkNode" where
  "exampleLeaf i t u = EnhancedBookmarkNode i None None (Some u) t None 1 False None []"

definition exampleFolder :: "string \<Rightarrow> string \<Rightarrow> EnhancedBookmarkNode list \<Rightarrow> EnhancedBookmarkNode" where
  "exampleFolder i t cs = EnhancedBookmarkNode i None None None t None 0 True (Some EXPANDED) cs"

definition exampleBookmark :: "string \<Rightarrow> string \<Rightarrow> string list \<Rightarrow> int \<Rightarrow> Bookmark" where
  "exampleBookmark i c ts v =
     \<lparr>bm_id = i, bm_title = i, bm_url = ''https://'' @ i @ ''.example'', bm_favicon = None,
      bm_description = None, bm_categoryId = c, bm_tags = ts, bm_createdAt = 1, bm_updatedAt = 1,
      bm_lastVisited = None, bm_visitCount = v, bm_aiGenerated = None, bm_originalId = None,
      bm_parentId = None, bm_index = None\<rparr>"

definition exampleCategory :: "string \<Rightarrow> string option \<Rightarrow> int \<Rightarrow> bool option \<Rightarrow> Category" where
  "exampleCategory i p ord bi =
     \<lparr>cat_id = i, cat_name = i, cat_parentId = p, cat_color = None, cat_icon = None,
      cat_order = ord, cat_createdAt = 1, cat_updatedAt = 1, cat_bookmarkCount = 0,
      cat_isAiGenerated = False, cat_builtin = bi, cat_level = None, cat_folderState = None\<rparr>"

definition exampleTag :: "string \<Rightarrow> int \<Rightarrow> Tag" where
  "exampleTag n c =
     \<lparr>tag_id = ''tag-'' @ n, tag_name = n, tag_color = None, tag_count = c, tag_createdAt = 1,
      tag_updatedAt = 1, tag_isAiGenerated = False\<rparr>"

definition exampleStorage :: "Bookmark list \<Rightarrow> Category list \<Rightarrow> Tag list \<Rightarrow> Storage" where
  "exampleStorage bs cs ts =
     \<lparr>sto_bookmarks = bs, sto_categories = cs, sto_tags = ts, sto_lastSync = 0\<rparr>"

definition exampleStore :: "Bookmark list \<Rightarrow> Category list \<Rightarrow> Tag list \<Rightarrow> Store" where
  "exampleStore bs cs ts =
     \<lparr>st_bookmarks = bs, st_categories = cs, st_tags = ts, st_uuidCalls = 0,
      st_storage = exampleStorage bs cs ts\<rparr>"

text \<open>A supply of pairwise different identifiers.\<close>

definition exampleUuid :: "nat \<Rightarrow> string" where
  "exampleUuid n = ''uuid'' @ replicate n (CHR ''+'')"

definition exampleParams :: SearchParams where
  "exampleParams =
     \<lparr>sp_keyword = None, sp_categoryId = Some ''all'', sp_tags = None,
      sp_sortBy = Some SortDateAdded, sp_sortOrder = Some Desc\<rparr>"

text \<open>Twenty-two bookmarks \<open>a\<close> to \<open>v\<close>; \<open>f\<close> and \<open>g\<close> have the same \<open>visitCount\<close>.\<close>

definition exampleVisited :: "Bookmark list" where
  "exampleVisited =
     map (\<lambda>(c, v). exampleBookmark [c] ''work'' [] v)
       (zip ''abcdefghijklmnopqrstuv''
          [50, 10, 5, 100, 1, 7, 7, 3, 2, 9, 8, 6, 4, 11, 12, 13, 14, 15, 16, 17, 18, 19])"

text \<open>
  The same bookmarks, with the tag \<open>x\<close> on \<open>d\<close> (the most visited) and on \<open>e\<close> and \<open>i\<close>
  (the two least visited).
\<close>

definition exampleTagged :: "Bookmark list" where
  "exampleTagged =
     map (\<lambda>b. if bm_id b \<in> set [''d'', ''e'', ''i''] then b\<lparr>bm_tags := [''x'']\<rparr> else b) exampleVisited"

definition exampleRank :: "string \<Rightarrow> nat" where
  "exampleRank s = (if s = ''root'' then 2 else if s = ''work'' then 1 else 0)"

definition exampleCategories :: "Category list" where
  "exampleCategories =
     [(exampleCategory ''work'' None 1 None)\<lparr>cat_folderState := Some COLLAPSED\<rparr>,
      exampleCategory ''sub'' (Some ''work'') 0 None,
      exampleCategory ''all'' None 0 (Some True)]"

definition exampleHostLeaf :: "string \<Rightarrow> string \<Rightarrow> string \<Rightarrow> BrowserBookmarkNode" where
  "exampleHostLeaf i t u = BrowserBookmarkNode i (Some ''1'') (Some 0) (Some u) t (Some 3) None []"

definition exampleHostFolder :: "string \<Rightarrow> string \<Rightarrow> BrowserBookmarkNode list \<Rightarrow> BrowserBookmarkNode" where
  "exampleHostFolder i t cs = BrowserBookmarkNode i (Some ''0'') (Some 0) None t (Some 2) None cs"

definition exampleHostRoot :: "BrowserBookmarkNode list \<Rightarrow> BrowserBookmarkNode" where
  "exampleHostRoot cs = BrowserBookmarkNode ''0'' None None None [] None None cs"

text \<open>
  A host tree with one folder and two bookmarks, and the same nodes as a flat sequence.
\<close>

definition exampleHost :: "BrowserBookmarkNode list" where
  "exampleHost =
     [exampleHostRoot
        [exampleHostFolder ''1'' ''Work'' [exampleHostLeaf ''h1'' ''Site A'' ''https://a.example''],
         exampleHostLeaf ''h2'' ''Site B'' ''https://b.example'']]"

definition exampleFlatHost :: "BrowserBookmarkNode list" where
  "exampleFlatHost =
     [exampleHostFolder ''1'' ''Work'' [],
      exampleHostLeaf ''h1'' ''Site A'' ''https://a.example'',
      exampleHostLeaf ''h2'' ''Site B'' ''https://b.example'']"

text \<open>
  The output of a first \<open>convertBrowserBookmarks\<close> over that sequence at time 5, from an
  empty store; and a stored record whose \<open>originalId\<close> is the id of no host node.
\<close>

definition exampleFirstPass :: "Bookmark list \<times> Category list" where
  "exampleFirstPass = convertBrowserBookmarks exampleBuiltins exampleUuid 5 exampleFlatHost [] []"

definition exampleStale :: Bookmark where
  "exampleStale = (exampleBookmark ''a'' ''work'' [] 0)\<lparr>bm_originalId := Some ''h9''\<rparr>"

section \<open>Verification: list helpers\<close>

lemma findIndex_None_iff: "findIndex P xs = None \<longleftrightarrow> (\<forall>x \<in> set xs. \<not> P x)"
  by (induction xs) auto

lemma findIndex_Some_D:
  "findIndex P xs = Some i \<Longrightarrow> i < length xs \<and> P (xs ! i) \<and> (\<forall>j < i. \<not> P (xs ! j))"
proof (induction xs arbitrary: i)
  case Nil
  then show ?case by simp
next
  case (Cons x xs)
  show ?case
  proof (cases "P x")
    case True
    with Cons.prems show ?thesis by simp
  next
    case False
    with Cons.prems obtain k where k: "findIndex P xs = Some k" "i = Suc k"
      by auto
    from Cons.IH[OF k(1)] False k(2) show ?thesis
      by (auto simp: less_Suc_eq_0_disj)
  qed
qed

section \<open>Verification: category counts\<close>

text \<open>
  C3. After the recount, every category of the result (also one without members) has as
  \<open>bookmarkCount\<close> the number of bookmarks whose \<open>categoryId\<close> is that category's \<open>id\<close>:
  direct members only, whatever the \<open>parentId\<close> links between categories are. The result
  has the same categories, in the same order, as the input. The store's
  \<open>updateCategoryBookmarkCount\<close> sets the same number on the one category it finds.
\<close>

theorem recount_count_consistency:
  "map cat_id (recount now bookmarks categories) = map cat_id categories \<and>
   (\<forall>c \<in> set (recount now bookmarks categories).
      cat_bookmarkCount c = int (length (filter (\<lambda>b. bm_categoryId b = cat_id c) bookmarks))) \<and>
   (\<forall>i. findIndex (\<lambda>c. cat_id c = categoryId) (st_categories st) = Some i \<longrightarrow>
      cat_bookmarkCount (st_categories (updateCategoryBookmarkCount now categoryId st) ! i) =
        int (length (filter (\<lambda>b. bm_categoryId b = categoryId) (st_bookmarks st))))"
proof -
  have "cat_bookmarkCount (st_categories (updateCategoryBookmarkCount now categoryId st) ! i) =
        int (length (filter (\<lambda>b. bm_categoryId b = categoryId) (st_bookmarks st)))"
    if "findIndex (\<lambda>c. cat_id c = categoryId) (st_categories st) = Some i" for i
  proof -
    from findIndex_Some_D[OF that] have "i < length (st_categories st)" by simp
    with that show ?thesis
      by (simp add: updateCategoryBookmarkCount_def Let_def)
  qed
  then show ?thesis
    by (auto simp: recount_def)
qed

theorem recount_count_consistency_witness:
  "map cat_bookmarkCount
     (recount 7
        [exampleBookmark ''a'' ''work'' [] 0, exampleBookmark ''b'' ''work.sub'' [] 0,
         exampleBookmark ''c'' ''work'' [] 0]
        [exampleCategory ''work'' None 0 None, exampleCategory ''work.sub'' (Some ''work'') 0 None,
         exampleCategory ''idle'' None 1 None]) = [2, 1, 0]"
  using recount_count_consistency [of 7
        "[exampleBookmark ''a'' ''work'' [] 0, exampleBookmark ''b'' ''work.sub'' [] 0,
         exampleBookmark ''c'' ''work'' [] 0]"
        "[exampleCategory ''work'' None 0 None, exampleCategory ''work.sub'' (Some ''work'') 0 None,
         exampleCategory ''idle'' None 1 None]"]
  by (simp add: recount_def exampleBookmark_def exampleCategory_def)

section \<open>Verification: searching the node forest\<close>

lemma search_preorder:
  "search js q node results = results @ filter (nodeMatches js q) (preorder node)"
proof (induction js q node results rule: search.induct)
  case (1 js q i p ix u t d l f fs cs results)
  define node where "node = EnhancedBookmarkNode i p ix u t d l f fs cs"
  define r1 where "r1 = (if nodeMatches js q node then results @ [node] else results)"
  have IH: "\<And>c r. c \<in> set cs \<Longrightarrow> search js q c r = r @ filter (nodeMatches js q) (preorder c)"
    using 1 by (cases "cs = []") (auto simp: node_def)
  have fold_eq: "fold (search js q) ys r = r @ filter (nodeMatches js q) (concat (map preorder ys))"
    if "set ys \<subseteq> set cs" for ys r
    using that by (induction ys arbitrary: r) (auto simp: IH)
  show ?case
    using fold_eq[of cs r1] by (auto simp: node_def r1_def Let_def)
qed

lemma fold_search_preorder:
  "fold (search js q) nodes r = r @ filter (nodeMatches js q) (concat (map preorder nodes))"
  by (induction nodes arbitrary: r) (auto simp: search_preorder)

text \<open>
  C10. With the empty query the result is the empty list. With any other query the result
  lists, in depth-first order over the whole forest (children of a node that does not match
  included), exactly the nodes whose lower-cased title or lower-cased non-empty url contains
  the lower-cased query.
\<close>

theorem searchBookmarks_spec:
  "searchBookmarks js nodes [] = [] \<and>
   (query \<noteq> [] \<longrightarrow>
      searchBookmarks js nodes query =
        filter (nodeMatches js (js_toLowerCase js query)) (concat (map preorder nodes)))"
  by (simp add: searchBookmarks_def fold_search_preorder)

theorem searchBookmarks_spec_witness:
  "''Hub'' \<noteq> [] \<and>
   searchBookmarks exampleBuiltins
     [exampleFolder ''1'' ''Dev'' [exampleLeaf ''2'' ''GitHub'' ''https://github.com''],
      exampleLeaf ''3'' ''News'' ''https://news.example'']
     ''Hub'' = [exampleLeaf ''2'' ''GitHub'' ''https://github.com'']"
proof -
  have ev: "filter (nodeMatches exampleBuiltins (js_toLowerCase exampleBuiltins ''Hub''))
      (concat (map preorder
         [exampleFolder ''1'' ''Dev'' [exampleLeaf ''2'' ''GitHub'' ''https://github.com''],
          exampleLeaf ''3'' ''News'' ''https://news.example''])) =
      [exampleLeaf ''2'' ''GitHub'' ''https://github.com'']"
    by code_simp
  show ?thesis
    using searchBookmarks_spec [of exampleBuiltins
       "[exampleFolder ''1'' ''Dev'' [exampleLeaf ''2'' ''GitHub'' ''https://github.com''],
         exampleLeaf ''3'' ''News'' ''https://news.example'']" "''Hub''"] ev
    by simp
qed

section \<open>Verification: deleting a bookmark that is not stored\<close>

text \<open>
  C9. When no stored bookmark has the given id, \<open>deleteBookmark\<close> of the store returns
  \<open>false\<close> and leaves the whole state (bookmarks, categories with their counts, tags, the
  storage behind them) as it was, and so does \<open>deleteBookmark\<close> of the service on the
  storage.
\<close>

theorem deleteBookmark_not_found:
  "(ident \<notin> bm_id ` set (st_bookmarks st) \<longrightarrow> deleteBookmark uuidv4 now ident st = (False, st)) \<and>
   (ident \<notin> bm_id ` set (sto_bookmarks sto) \<longrightarrow> deleteBookmark_service now ident sto = (False, sto))"
proof -
  have "findIndex (\<lambda>b. bm_id b = ident) (st_bookmarks st) = None"
    if "ident \<notin> bm_id ` set (st_bookmarks st)"
    using that by (auto simp: findIndex_None_iff)
  moreover have "findIndex (\<lambda>b. bm_id b = ident) (sto_bookmarks sto) = None"
    if "ident \<notin> bm_id ` set (sto_bookmarks sto)"
    using that by (auto simp: findIndex_None_iff)
  ultimately show ?thesis
    by (simp add: deleteBookmark_def deleteBookmark_service_def)
qed

theorem deleteBookmark_not_found_witness:
  "''zz'' \<notin> bm_id ` set (st_bookmarks (exampleStore [exampleBookmark ''a'' ''work'' [''x''] 0] [] [])) \<and>
   deleteBookmark exampleUuid 5 ''zz'' (exampleStore [exampleBookmark ''a'' ''work'' [''x''] 0] [] []) =
     (False, exampleStore [exampleBookmark ''a'' ''work'' [''x''] 0] [] []) \<and>
   deleteBookmark_service 5 ''zz'' (exampleStorage [exampleBookmark ''a'' ''work'' [''x''] 0] [] []) =
     (False, exampleStorage [exampleBookmark ''a'' ''work'' [''x''] 0] [] [])"
  using deleteBookmark_not_found [of "''zz''" "exampleStore [exampleBookmark ''a'' ''work'' [''x''] 0] [] []"
      exampleUuid 5 "exampleStorage [exampleBookmark ''a'' ''work'' [''x''] 0] [] []"]
  by (simp add: exampleStore_def exampleStorage_def exampleBookmark_def)

section \<open>Verification: the tag filter\<close>

text \<open>
  The tag stage of the store's projection keeps exactly the bookmarks that carry every
  requested tag.
\<close>

lemma tagStage_every:
  "tags \<noteq> [] \<Longrightarrow>
   tagStage (params\<lparr>sp_tags := Some tags\<rparr>) result =
     filter (\<lambda>bookmark. set tags \<subseteq> set (bm_tags bookmark)) result"
  by (auto simp: tagStage_def list_all_iff intro!: filter_cong)

text \<open>
  C6. The tag filter of the service's \<open>searchBookmarks\<close> tests
  \<open>tags.some(tagId => b.tags.includes(tagId))\<close>: requested the tags \<open>x\<close> and \<open>y\<close>, it
  keeps bookmark \<open>a\<close>, which carries only \<open>x\<close>; the tag stage of the store's projection
  drops it.
\<close>

theorem searchBookmarks_service_tags_any:
  "map bm_id (searchBookmarks_service exampleBuiltins 0 None None (Some [''x'', ''y''])
     (exampleStorage [exampleBookmark ''a'' ''work'' [''x''] 0, exampleBookmark ''b'' ''work'' [''x'', ''y''] 0] [] []))
     = [''a'', ''b''] \<and>
   map bm_id (tagStage (exampleParams\<lparr>sp_tags := Some [''x'', ''y'']\<rparr>)
     [exampleBookmark ''a'' ''work'' [''x''] 0, exampleBookmark ''b'' ''work'' [''x'', ''y''] 0]) = [''b'']"
  by (simp add: searchBookmarks_service_def tagStage_def exampleStorage_def exampleBookmark_def exampleParams_def)

section \<open>Verification: the category filter \<open>frequent\<close>\<close>

lemma insort_by_insort_key:
  "insort_by (\<lambda>a b. f b - f a) x xs = insort_key (\<lambda>b. - f b) x xs" for f :: "'a \<Rightarrow> int"
  by (induction xs) auto

lemma sort_by_sort_key:
  "sort_by (\<lambda>a b. f b - f a) xs = sort_key (\<lambda>b. - f b) xs" for f :: "'a \<Rightarrow> int"
  by (induction xs) (auto simp: sort_by_def insort_by_insort_key)

lemma categoryStage_frequent:
  "categoryStage now (params\<lparr>sp_categoryId := Some ''frequent''\<rparr>) bookmarks =
     take 20 (byVisitCountDesc bookmarks)"
  by (simp add: categoryStage_def byVisitCountDesc_def sort_by_sort_key)

lemma categoryStage_none:
  "categoryStage now (params\<lparr>sp_categoryId := None\<rparr>) bookmarks = bookmarks"
  by (simp add: categoryStage_def)

lemma stages_categoryId:
  "tagStage (params\<lparr>sp_categoryId := c\<rparr>) = tagStage params"
  "keywordStage js (params\<lparr>sp_categoryId := c\<rparr>) = keywordStage js params"
  "sortComparison js (params\<lparr>sp_categoryId := c\<rparr>) = sortComparison js params"
  by (auto simp: tagStage_def keywordStage_def sortComparison_def fun_eq_iff)

text \<open>
  The later stages of the store's projection and of the service's \<open>searchBookmarks\<close> are
  filters by the predicates above; the sort of the projection keeps every record.
\<close>

lemma mset_insort_by: "mset (insort_by cmp x xs) = add_mset x (mset xs)"
  by (induction xs) auto

lemma mset_sort_by: "mset (sort_by cmp xs) = mset xs"
  by (induction xs) (auto simp: sort_by_def mset_insort_by)

lemma tagStage_filter:
  "tagStage params result = filter (carriesEveryTag (sp_tags params)) result"
proof (cases "sp_tags params")
  case None
  then show ?thesis by (simp add: tagStage_def carriesEveryTag_def)
next
  case (Some ts)
  show ?thesis
  proof (cases "ts = []")
    case True
    with Some show ?thesis by (simp add: tagStage_def carriesEveryTag_def)
  next
    case False
    with Some show ?thesis
      by (auto simp: tagStage_def carriesEveryTag_def list_all_iff intro!: filter_cong)
  qed
qed

lemma keywordStage_filter:
  "keywordStage js params result = filter (mentionsKeyword js (sp_keyword params)) result"
proof (cases "sp_keyword params")
  case None
  then show ?thesis by (simp add: keywordStage_def mentionsKeyword_def)
next
  case (Some kw)
  show ?thesis
  proof (cases "kw = []")
    case True
    with Some show ?thesis by (simp add: keywordStage_def mentionsKeyword_def)
  next
    case False
    with Some show ?thesis
      by (auto simp: keywordStage_def mentionsKeyword_def Let_def list_ex_iff intro!: filter_cong)
  qed
qed

lemma filteredBookmarks_frequent:
  "filteredBookmarks js now (params\<lparr>sp_categoryId := Some ''frequent''\<rparr>) bookmarks =
     sort_by (sortComparison js params)
       (filter (mentionsKeyword js (sp_keyword params))
          (filter (carriesEveryTag (sp_tags params)) (take 20 (byVisitCountDesc bookmarks))))"
  by (simp add: filteredBookmarks_def categoryStage_frequent stages_categoryId
      tagStage_filter keywordStage_filter)

lemma searchBookmarks_service_frequent:
  "searchBookmarks_service js now keyword (Some ''frequent'') tags sto =
     filter (mentionsTerm js keyword)
       (filter (carriesSomeTag tags) (take 20 (byVisitCountDesc (sto_bookmarks sto))))"
  by (cases tags; cases keyword)
    (auto simp: searchBookmarks_service_def Let_def byVisitCountDesc_def sort_by_sort_key
       carriesSomeTag_def mentionsTerm_def list_ex_iff intro!: filter_cong)

text \<open>
  C5. \<open>byVisitCountDesc\<close> is the permutation of the bookmarks that is ordered by
  \<open>visitCount\<close>, highest first, with equal counts in the order of the original array.
  With \<open>categoryId = 'frequent'\<close> the category stage selects its first 20 elements from the
  full list. The projection of the store is exactly those 20, narrowed by the tag filter
  and then by the keyword filter, in the order of the sort stage; \<open>searchBookmarks\<close> of the
  service returns exactly those 20, narrowed by its tag filter and then by its keyword
  filter. Put differently, either result is what the later stages make of the 20 alone.
\<close>

theorem frequent_top20:
  "mset (byVisitCountDesc bookmarks) = mset bookmarks \<and>
   sorted (map (\<lambda>b. - bm_visitCount b) (byVisitCountDesc bookmarks)) \<and>
   (\<forall>k. filter (\<lambda>b. bm_visitCount b = k) (byVisitCountDesc bookmarks) =
        filter (\<lambda>b. bm_visitCount b = k) bookmarks) \<and>
   categoryStage now (params\<lparr>sp_categoryId := Some ''frequent''\<rparr>) bookmarks =
     take 20 (byVisitCountDesc bookmarks) \<and>
   filteredBookmarks js now (params\<lparr>sp_categoryId := Some ''frequent''\<rparr>) bookmarks =
     sort_by (sortComparison js params)
       (filter (mentionsKeyword js (sp_keyword params))
          (filter (carriesEveryTag (sp_tags params)) (take 20 (byVisitCountDesc bookmarks)))) \<and>
   mset (filteredBookmarks js now (params\<lparr>sp_categoryId := Some ''frequent''\<rparr>) bookmarks) =
     mset (filter (mentionsKeyword js (sp_keyword params))
             (filter (carriesEveryTag (sp_tags params)) (take 20 (byVisitCountDesc bookmarks)))) \<and>
   searchBookmarks_service js now keyword (Some ''frequent'') tags sto =
     filter (mentionsTerm js keyword)
       (filter (carriesSomeTag tags) (take 20 (byVisitCountDesc (sto_bookmarks sto)))) \<and>
   filteredBookmarks js now (params\<lparr>sp_categoryId := Some ''frequent''\<rparr>) bookmarks =
     filteredBookmarks js now (params\<lparr>sp_categoryId := None\<rparr>) (take 20 (byVisitCountDesc bookmarks)) \<and>
   searchBookmarks_service js now keyword (Some ''frequent'') tags sto =
     searchBookmarks_service js now keyword None tags
       (sto\<lparr>sto_bookmarks := take 20 (byVisitCountDesc (sto_bookmarks sto))\<rparr>)"
proof -
  have perm: "mset (byVisitCountDesc bookmarks) = mset bookmarks"
    by (simp add: byVisitCountDesc_def)
  have ordered: "sorted (map (\<lambda>b. - bm_visitCount b) (byVisitCountDesc bookmarks))"
    by (simp add: byVisitCountDesc_def)
  have stable: "\<forall>k. filter (\<lambda>b. bm_visitCount b = k) (byVisitCountDesc bookmarks) =
        filter (\<lambda>b. bm_visitCount b = k) bookmarks"
  proof
    fix k
    show "filter (\<lambda>b. bm_visitCount b = k) (byVisitCountDesc bookmarks) =
        filter (\<lambda>b. bm_visitCount b = k) bookmarks"
      using sort_key_stable[of "\<lambda>b. - bm_visitCount b" "- k" bookmarks]
      by (simp add: byVisitCountDesc_def)
  qed
  have store: "filteredBookmarks js now (params\<lparr>sp_categoryId := Some ''frequent''\<rparr>) bookmarks =
     sort_by (sortComparison js params)
       (filter (mentionsKeyword js (sp_keyword params))
          (filter (carriesEveryTag (sp_tags params)) (take 20 (byVisitCountDesc bookmarks))))"
    by (rule filteredBookmarks_frequent)
  have content: "mset (filteredBookmarks js now (params\<lparr>sp_categoryId := Some ''frequent''\<rparr>) bookmarks) =
     mset (filter (mentionsKeyword js (sp_keyword params))
             (filter (carriesEveryTag (sp_tags params)) (take 20 (byVisitCountDesc bookmarks))))"
    by (simp only: store mset_sort_by)
  have store_rel: "filteredBookmarks js now (params\<lparr>sp_categoryId := Some ''frequent''\<rparr>) bookmarks =
     filteredBookmarks js now (params\<lparr>sp_categoryId := None\<rparr>) (take 20 (byVisitCountDesc bookmarks))"
    by (simp only: filteredBookmarks_def categoryStage_frequent categoryStage_none stages_categoryId)
  have service_rel: "searchBookmarks_service js now keyword (Some ''frequent'') tags sto =
     searchBookmarks_service js now keyword None tags
       (sto\<lparr>sto_bookmarks := take 20 (byVisitCountDesc (sto_bookmarks sto))\<rparr>)"
    by (simp add: searchBookmarks_service_def byVisitCountDesc_def sort_by_sort_key)
  show ?thesis
    by (intro conjI perm ordered stable categoryStage_frequent store content
        searchBookmarks_service_frequent store_rel service_rel)
qed

theorem frequent_top20_witness:
  "map bm_id (filteredBookmarks exampleBuiltins 0 (exampleParams\<lparr>sp_categoryId := Some ''frequent''\<rparr>) exampleVisited) =
     [''d'', ''a'', ''v'', ''u'', ''t'', ''s'', ''r'', ''q'', ''p'', ''o'',
      ''n'', ''b'', ''j'', ''k'', ''f'', ''g'', ''l'', ''c'', ''m'', ''h''] \<and>
   map bm_id (tagStage (exampleParams\<lparr>sp_tags := Some [''x'']\<rparr>) exampleTagged) = [''d'', ''e'', ''i''] \<and>
   map bm_id (filteredBookmarks exampleBuiltins 0
                (exampleParams\<lparr>sp_tags := Some [''x''], sp_categoryId := Some ''frequent''\<rparr>) exampleTagged) = [''d''] \<and>
   map bm_id (searchBookmarks_service exampleBuiltins 0 None (Some ''frequent'') (Some [''x''])
                (exampleStorage exampleTagged [] [])) = [''d'']"
proof -
  note plain = frequent_top20 [where bookmarks = exampleVisited and js = exampleBuiltins and now = 0
      and params = exampleParams and keyword = None and tags = None
      and sto = "exampleStorage exampleVisited [] []"]
  note tagged = frequent_top20 [where bookmarks = exampleTagged and js = exampleBuiltins and now = 0
      and params = "exampleParams\<lparr>sp_tags := Some [''x'']\<rparr>" and keyword = None and tags = "Some [''x'']"
      and sto = "exampleStorage exampleTagged [] []"]
  have e1: "map bm_id (sort_by (sortComparison exampleBuiltins exampleParams)
       (filter (mentionsKeyword exampleBuiltins (sp_keyword exampleParams))
          (filter (carriesEveryTag (sp_tags exampleParams)) (take 20 (byVisitCountDesc exampleVisited))))) =
     [''d'', ''a'', ''v'', ''u'', ''t'', ''s'', ''r'', ''q'', ''p'', ''o'',
      ''n'', ''b'', ''j'', ''k'', ''f'', ''g'', ''l'', ''c'', ''m'', ''h'']"
    by code_simp
  have e2: "map bm_id (tagStage (exampleParams\<lparr>sp_tags := Some [''x'']\<rparr>) exampleTagged) = [''d'', ''e'', ''i'']"
    by code_simp
  have e3: "map bm_id (sort_by (sortComparison exampleBuiltins (exampleParams\<lparr>sp_tags := Some [''x'']\<rparr>))
       (filter (mentionsKeyword exampleBuiltins (sp_keyword (exampleParams\<lparr>sp_tags := Some [''x'']\<rparr>)))
          (filter (carriesEveryTag (sp_tags (exampleParams\<lparr>sp_tags := Some [''x'']\<rparr>)))
             (take 20 (byVisitCountDesc exampleTagged))))) = [''d'']"
    by code_simp
  have e4: "map bm_id (filter (mentionsTerm exampleBuiltins None)
       (filter (carriesSomeTag (Some [''x'']))
          (take 20 (byVisitCountDesc (sto_bookmarks (exampleStorage exampleTagged [] [])))))) = [''d'']"
    by code_simp
  have 1: "map bm_id (filteredBookmarks exampleBuiltins 0 (exampleParams\<lparr>sp_categoryId := Some ''frequent''\<rparr>) exampleVisited) =
     [''d'', ''a'', ''v'', ''u'', ''t'', ''s'', ''r'', ''q'', ''p'', ''o'',
      ''n'', ''b'', ''j'', ''k'', ''f'', ''g'', ''l'', ''c'', ''m'', ''h'']"
    using plain e1 by simp
  have 3: "map bm_id (filteredBookmarks exampleBuiltins 0
                (exampleParams\<lparr>sp_tags := Some [''x''], sp_categoryId := Some ''frequent''\<rparr>) exampleTagged) = [''d'']"
    using tagged e3 by simp
  have 4: "map bm_id (searchBookmarks_service exampleBuiltins 0 None (Some ''frequent'') (Some [''x''])
                (exampleStorage exampleTagged [] [])) = [''d'']"
    using tagged e4 by simp
  from 1 e2 3 4 show ?thesis by (intro conjI)
qed

section \<open>Verification: tag counts\<close>

lemma initTagMap_fold_inv:
  "tagInv m [] \<Longrightarrow>
   tagInv (fold (\<lambda>tag tagMap. AList.update (tag_name tag) (tag\<lparr>tag_count := 0\<rparr>) tagMap) ts m) []"
proof (induction ts arbitrary: m)
  case Nil
  then show ?case by simp
next
  case (Cons a ts)
  have "tagInv (AList.update (tag_name a) (a\<lparr>tag_count := 0\<rparr>) m) []"
    using Cons.prems by (auto simp: tagInv_def AList.distinct_update AList.update_conv')
  then show ?case using Cons.IH by simp
qed

lemma initTagMap_inv: "tagInv (initTagMap ts) []"
  unfolding initTagMap_def by (rule initTagMap_fold_inv) (simp add: tagInv_def)

lemma countTag_inv:
  assumes "tagInv m seen"
  shows "tagInv (fst (countTag uuidv4 now x (m, n))) (seen @ [x])"
proof (cases "map_of m x")
  case None
  then have "x \<notin> fst ` set m" by (simp add: map_of_eq_None_iff)
  with assms have "count_list seen x = 0"
    by (auto simp: tagInv_def count_list_0_iff)
  with assms None show ?thesis
    by (auto simp: tagInv_def countTag_def AList.distinct_update AList.update_conv' AList.dom_update)
next
  case (Some t)
  with assms show ?thesis
    by (auto simp: tagInv_def countTag_def AList.distinct_update AList.update_conv' AList.dom_update)
qed

lemma fold_countTag_inv:
  "tagInv m seen \<Longrightarrow> tagInv (fst (fold (countTag uuidv4 now) xs (m, n))) (seen @ xs)"
proof (induction xs arbitrary: m n seen)
  case Nil
  then show ?case by simp
next
  case (Cons x xs)
  obtain m' n' where step: "countTag uuidv4 now x (m, n) = (m', n')" by force
  with countTag_inv[OF Cons.prems, of uuidv4 now x n] have "tagInv m' (seen @ [x])" by simp
  from Cons.IH[OF this, of n'] step show ?case by simp
qed

lemma fold_fold_concat:
  "fold (\<lambda>b. fold f (g b)) bs s = fold f (concat (map g bs)) s"
  by (induction bs arbitrary: s) auto

lemma filter_key_length:
  "distinct (map fst m) \<Longrightarrow> k \<in> fst ` set m \<Longrightarrow> length (filter (\<lambda>p. fst p = k) m) = 1"
proof (induction m)
  case Nil
  then show ?case by simp
next
  case (Cons p m)
  show ?case
  proof (cases "fst p = k")
    case True
    with Cons.prems have "filter (\<lambda>q. fst q = k) m = []"
      by (auto simp: filter_empty_conv image_iff)
    with True show ?thesis by simp
  next
    case False
    with Cons show ?thesis by auto
  qed
qed

lemma count_list_distinct:
  "distinct xs \<Longrightarrow> count_list xs x = (if x \<in> set xs then 1 else 0)"
  by (induction xs) auto

lemma updateTags_tags:
  "\<exists>m. tagInv m (concat (map bm_tags (st_bookmarks st))) \<and>
       st_tags (updateTags uuidv4 now tagNames st) = filter (\<lambda>tag. tag_count tag > 0) (map snd m)"
proof -
  let ?all = "concat (map bm_tags (st_bookmarks st))"
  obtain m n where f: "fold (countTag uuidv4 now) ?all (initTagMap (st_tags st), st_uuidCalls st) = (m, n)"
    by force
  have "tagInv m ?all"
    using fold_countTag_inv[OF initTagMap_inv, of uuidv4 now ?all "st_tags st" "st_uuidCalls st"] f
    by simp
  moreover have "st_tags (updateTags uuidv4 now tagNames st) = filter (\<lambda>tag. tag_count tag > 0) (map snd m)"
    using f by (simp add: updateTags_def fold_fold_concat Let_def)
  ultimately show ?thesis by blast
qed

text \<open>
  C4, as the claim states its last part: every record's count would be the number of
  bookmarks that reference the tag. A bookmark whose tag list names \<open>x\<close> twice is counted
  twice.
\<close>

theorem updateTags_count_counterexample:
  "\<not> (\<forall>t \<in> set (st_tags (updateTags exampleUuid 5 []
              (exampleStore [exampleBookmark ''a'' ''work'' [''x'', ''x''] 0] [] []))).
        tag_count t = int (length (filter (\<lambda>b. tag_name t \<in> set (bm_tags b))
                                   [exampleBookmark ''a'' ''work'' [''x'', ''x''] 0])))"
proof -
  have "map (\<lambda>t. (tag_name t, tag_count t)) (st_tags (updateTags exampleUuid 5 []
              (exampleStore [exampleBookmark ''a'' ''work'' [''x'', ''x''] 0] [] []))) = [(''x'', 2)]"
    by code_simp
  then obtain t where "st_tags (updateTags exampleUuid 5 []
              (exampleStore [exampleBookmark ''a'' ''work'' [''x'', ''x''] 0] [] [])) = [t]"
      "tag_name t = ''x''" "tag_count t = 2"
    by auto
  then show ?thesis
    by (simp add: exampleBookmark_def)
qed

text \<open>
  C4, amended. After \<open>updateTags\<close> no tag record has count 0, every record's count is the
  number of occurrences of its name in the tag lists of all bookmarks, and every tag name
  that occurs in some bookmark's tag list has exactly one record. When no bookmark lists a
  tag twice, the count is the number of bookmarks that reference the tag.
\<close>

theorem updateTags_pruned_counts:
  "(\<forall>t \<in> set (st_tags (updateTags uuidv4 now tagNames st)).
      tag_count t \<noteq> 0 \<and>
      tag_count t = int (count_list (concat (map bm_tags (st_bookmarks st))) (tag_name t))) \<and>
   (\<forall>name \<in> set (concat (map bm_tags (st_bookmarks st))).
      length (filter (\<lambda>t. tag_name t = name) (st_tags (updateTags uuidv4 now tagNames st))) = 1) \<and>
   ((\<forall>b \<in> set (st_bookmarks st). distinct (bm_tags b)) \<longrightarrow>
      (\<forall>t \<in> set (st_tags (updateTags uuidv4 now tagNames st)).
         tag_count t = int (length (filter (\<lambda>b. tag_name t \<in> set (bm_tags b)) (st_bookmarks st)))))"
proof -
  define occ where "occ = concat (map bm_tags (st_bookmarks st))"
  define r where "r = st_tags (updateTags uuidv4 now tagNames st)"
  obtain m where inv: "tagInv m occ" and r: "r = filter (\<lambda>tag. tag_count tag > 0) (map snd m)"
    using updateTags_tags[of st uuidv4 now tagNames] unfolding occ_def r_def by blast
  have mem: "tag_name t = k \<and> tag_count t = int (count_list occ k)" if "(k, t) \<in> set m" for k t
    using inv that by (auto simp: tagInv_def)
  have 1: "tag_count t \<noteq> 0 \<and> tag_count t = int (count_list occ (tag_name t))" if "t \<in> set r" for t
    using that mem unfolding r by auto
  have 2: "length (filter (\<lambda>t. tag_name t = name) r) = 1" if "name \<in> set occ" for name
  proof -
    have key: "name \<in> fst ` set m" using inv that by (auto simp: tagInv_def)
    have "filter (\<lambda>t. tag_name t = name) r = map snd (filter (\<lambda>p. fst p = name) m)"
    proof -
      have "filter (\<lambda>t. tag_name t = name) r =
            map snd (filter (\<lambda>p. tag_name (snd p) = name \<and> tag_count (snd p) > 0) m)"
        unfolding r by (simp add: filter_map comp_def conj_commute)
      also have "\<dots> = map snd (filter (\<lambda>p. fst p = name) m)"
      proof -
        have "(tag_name (snd p) = name \<and> tag_count (snd p) > 0) = (fst p = name)" if "p \<in> set m" for p
          using mem[of "fst p" "snd p"] that \<open>name \<in> set occ\<close>
          by (auto simp: count_list_0_iff zero_less_iff_neq_zero)
        then have "filter (\<lambda>p. tag_name (snd p) = name \<and> tag_count (snd p) > 0) m =
                   filter (\<lambda>p. fst p = name) m"
          by (intro filter_cong) auto
        then show ?thesis by simp
      qed
      finally show ?thesis .
    qed
    then show ?thesis
      using filter_key_length[of m name] inv key by (simp add: tagInv_def)
  qed
  have 3: "tag_count t = int (length (filter (\<lambda>b. tag_name t \<in> set (bm_tags b)) (st_bookmarks st)))"
    if d: "\<forall>b \<in> set (st_bookmarks st). distinct (bm_tags b)" and t: "t \<in> set r" for t
  proof -
    have "count_list (concat (map bm_tags bs)) x = length (filter (\<lambda>b. x \<in> set (bm_tags b)) bs)"
      if "\<forall>b \<in> set bs. distinct (bm_tags b)" for bs :: "Bookmark list" and x
      using that
    proof (induction bs)
      case Nil
      then show ?case by simp
    next
      case (Cons b bs)
      have "count_list (bm_tags b) x = (if x \<in> set (bm_tags b) then 1 else 0)"
        using Cons.prems by (simp add: count_list_distinct)
      with Cons show ?case by simp
    qed
    with d 1[OF t] show ?thesis by (simp add: occ_def)
  qed
  have c1: "\<forall>t \<in> set r. tag_count t \<noteq> 0 \<and> tag_count t = int (count_list occ (tag_name t))"
    using 1 by blast
  have c2: "\<forall>name \<in> set occ. length (filter (\<lambda>t. tag_name t = name) r) = 1"
    using 2 by blast
  have c3: "(\<forall>b \<in> set (st_bookmarks st). distinct (bm_tags b)) \<longrightarrow>
      (\<forall>t \<in> set r. tag_count t = int (length (filter (\<lambda>b. tag_name t \<in> set (bm_tags b)) (st_bookmarks st))))"
    using 3 by blast
  from c1 c2 c3 show ?thesis unfolding occ_def r_def by (intro conjI)
qed

theorem updateTags_pruned_counts_witness:
  "map (\<lambda>t. (tag_name t, tag_count t))
     (st_tags (updateTags exampleUuid 5 []
        (exampleStore [exampleBookmark ''a'' ''work'' [''x'', ''y''] 0, exampleBookmark ''b'' ''work'' [''x''] 0]
           [] [exampleTag ''z'' 3, exampleTag ''x'' 0]))) = [(''x'', 2), (''y'', 1)]"
proof -
  have ev: "map tag_name
     (st_tags (updateTags exampleUuid 5 []
        (exampleStore [exampleBookmark ''a'' ''work'' [''x'', ''y''] 0, exampleBookmark ''b'' ''work'' [''x''] 0]
           [] [exampleTag ''z'' 3, exampleTag ''x'' 0]))) = [''x'', ''y'']"
    by code_simp
  have bs: "st_bookmarks (exampleStore [exampleBookmark ''a'' ''work'' [''x'', ''y''] 0, exampleBookmark ''b'' ''work'' [''x''] 0]
           [] [exampleTag ''z'' 3, exampleTag ''x'' 0]) = [exampleBookmark ''a'' ''work'' [''x'', ''y''] 0, exampleBookmark ''b'' ''work'' [''x''] 0]"
    by (simp add: exampleStore_def)
  from ev obtain t1 t2 where ts: "st_tags (updateTags exampleUuid 5 []
        (exampleStore [exampleBookmark ''a'' ''work'' [''x'', ''y''] 0, exampleBookmark ''b'' ''work'' [''x''] 0]
           [] [exampleTag ''z'' 3, exampleTag ''x'' 0])) = [t1, t2]" "tag_name t1 = ''x''" "tag_name t2 = ''y''"
    by auto
  show ?thesis
    using updateTags_pruned_counts [of exampleUuid 5 "[]"
        "exampleStore [exampleBookmark ''a'' ''work'' [''x'', ''y''] 0, exampleBookmark ''b'' ''work'' [''x''] 0]
           [] [exampleTag ''z'' 3, exampleTag ''x'' 0]"] ts
    by (simp add: bs) (simp add: exampleBookmark_def)
qed

section \<open>Verification: deleting a category\<close>

lemma st_bookmarks_updateCategoryBookmarkCount [simp]:
  "st_bookmarks (updateCategoryBookmarkCount now c st) = st_bookmarks st"
  by (simp add: updateCategoryBookmarkCount_def Let_def split: option.splits)

lemma st_bookmarks_updateTags [simp]:
  "st_bookmarks (updateTags uuidv4 now ts st) = st_bookmarks st"
  by (simp add: updateTags_def Let_def split: prod.splits)







lemma cat_ids_updateCategoryBookmarkCount [simp]:
  "map (\<lambda>c. (cat_id c, cat_builtin c)) (st_categories (updateCategoryBookmarkCount now cid st)) =
   map (\<lambda>c. (cat_id c, cat_builtin c)) (st_categories st)"
proof (cases "findIndex (\<lambda>c. cat_id c = cid) (st_categories st)")
  case None
  then show ?thesis by (simp add: updateCategoryBookmarkCount_def)
next
  case (Some i)
  from findIndex_Some_D[OF Some] have "i < length (st_categories st)" by simp
  then show ?thesis
    using Some by (simp add: updateCategoryBookmarkCount_def Let_def map_update list_update_same_conv)
qed

lemma st_categories_updateTags [simp]:
  "st_categories (updateTags uuidv4 now ts st) = st_categories st"
  by (simp add: updateTags_def Let_def split: prod.splits)

lemma cat_ids_reassignStep [simp]:
  "map (\<lambda>c. (cat_id c, cat_builtin c)) (st_categories (reassignStep uuidv4 now x s)) =
   map (\<lambda>c. (cat_id c, cat_builtin c)) (st_categories s)"
  by (simp add: reassignStep_def updateBookmark_def Let_def split: option.splits)

lemma cat_ids_fold_reassignStep [simp]:
  "map (\<lambda>c. (cat_id c, cat_builtin c)) (st_categories (fold (reassignStep uuidv4 now) xs s)) =
   map (\<lambda>c. (cat_id c, cat_builtin c)) (st_categories s)"
  by (induction xs arbitrary: s) simp_all

lemma find_by_key:
  "distinct (map f xs) \<Longrightarrow> c \<in> set xs \<Longrightarrow> find (\<lambda>x. f x = f c) xs = Some c"
  by (induction xs) (auto simp: image_iff)











section \<open>Verification: the category tree\<close>

lemma categoryMapInit_fold:
  "map_of (fold (\<lambda>category categoryMap.
             if map_of categoryMap (parentKey category) = None
             then AList.update (parentKey category) [] categoryMap else categoryMap) cs m) k =
   (if k \<in> parentKey ` set cs \<and> map_of m k = None then Some [] else map_of m k)"
proof (induction cs arbitrary: m)
  case Nil
  then show ?case by simp
next
  case (Cons c cs)
  show ?case
    by (auto simp: Cons.IH AList.update_conv')
qed

lemma categoryMapInit_lookup:
  "map_of (categoryMapInit cs) k = (if k \<in> parentKey ` set cs then Some [] else None)"
  by (simp add: categoryMapInit_def Let_def categoryMapInit_fold)

lemma categoryMapFill_fold:
  "map_of (fold (\<lambda>category categoryMap.
             AList.update (parentKey category)
               ((case map_of categoryMap (parentKey category) of None \<Rightarrow> [] | Some cs \<Rightarrow> cs) @ [category])
               categoryMap) cs m) k =
   (if k \<in> parentKey ` set cs
    then Some ((case map_of m k of None \<Rightarrow> [] | Some v \<Rightarrow> v) @ filter (\<lambda>c. parentKey c = k) cs)
    else map_of m k)"
proof (induction cs arbitrary: m)
  case Nil
  then show ?case by simp
next
  case (Cons c cs)
  have "filter (\<lambda>ca. parentKey ca = k) cs = []" if "k \<notin> parentKey ` set cs"
    using that by (auto simp: filter_empty_conv)
  then show ?case
    by (auto simp: Cons.IH AList.update_conv' split: option.splits)
qed

lemma categoryMapFill_lookup:
  "map_of (categoryMapFill cs m) k =
   (if k \<in> parentKey ` set cs
    then Some ((case map_of m k of None \<Rightarrow> [] | Some v \<Rightarrow> v) @ filter (\<lambda>c. parentKey c = k) cs)
    else map_of m k)"
  by (simp only: categoryMapFill_def Let_def categoryMapFill_fold)

lemma categoryMap_children:
  "(case map_of (categoryMapFill cs (categoryMapInit cs)) k of None \<Rightarrow> [] | Some v \<Rightarrow> v) =
     filter (\<lambda>c. parentKey c = k) cs"
proof (cases "k \<in> parentKey ` set cs")
  case True
  then show ?thesis by (simp add: categoryMapFill_lookup categoryMapInit_lookup)
next
  case False
  then have "filter (\<lambda>c. parentKey c = k) cs = []"
    by (auto simp: filter_empty_conv)
  with False show ?thesis by (simp add: categoryMapFill_lookup categoryMapInit_lookup)
qed

lemma those_map_Some:
  "(\<And>x. x \<in> set xs \<Longrightarrow> f x = Some (g x)) \<Longrightarrow> those (map f xs) = Some (map g xs)"
  by (induction xs) auto

lemma insort_by_map:
  "insort_by (\<lambda>a b. f a - f b) (g x) (map g xs) = map g (insort_key (\<lambda>c. f (g c)) x xs)"
  for f :: "'b \<Rightarrow> int"
  by (induction xs) auto

lemma sort_by_map:
  "sort_by (\<lambda>a b. f a - f b) (map g xs) = map g (sort_key (\<lambda>c. f (g c)) xs)"
  for f :: "'b \<Rightarrow> int"
  by (induction xs) (auto simp: sort_by_def insort_by_map)


lemma buildTree_projected:
  fixes h :: "string \<Rightarrow> nat"
  assumes wf: "\<forall>c \<in> set cs. h (cat_id c) < h (parentKey c)"
  shows "h pid < fuel \<Longrightarrow>
         \<exists>ts. buildTree fuel (categoryMapFill cs (categoryMapInit cs)) pid level = Some ts \<and>
              list_all2 (projected cs level) (siblingGroup cs pid) ts"
proof (induction fuel arbitrary: pid level)
  case 0
  then show ?case by simp
next
  case (Suc fuel)
  let ?m = "categoryMapFill cs (categoryMapInit cs)"
  let ?children = "filter (\<lambda>c. parentKey c = pid) cs"
  let ?deco = "\<lambda>c. c\<lparr>cat_level := Some level, cat_folderState := Some (defaultFolderState level)\<rparr>"
  have "\<forall>c \<in> set ?children. \<exists>ts. buildTree fuel ?m (cat_id c) (level + 1) = Some ts \<and>
               list_all2 (projected cs (level + 1)) (siblingGroup cs (cat_id c)) ts"
  proof
    fix c assume "c \<in> set ?children"
    with wf have "h (cat_id c) < h pid" by auto
    with Suc.prems have "h (cat_id c) < fuel" by simp
    from Suc.IH[OF this, of "level + 1"]
    show "\<exists>ts. buildTree fuel ?m (cat_id c) (level + 1) = Some ts \<and>
               list_all2 (projected cs (level + 1)) (siblingGroup cs (cat_id c)) ts" .
  qed
  then obtain sub where child: "\<forall>c \<in> set ?children. buildTree fuel ?m (cat_id c) (level + 1) = Some (sub c) \<and>
               list_all2 (projected cs (level + 1)) (siblingGroup cs (cat_id c)) (sub c)"
    using bchoice[of "set ?children" "\<lambda>c ts. buildTree fuel ?m (cat_id c) (level + 1) = Some ts \<and>
               list_all2 (projected cs (level + 1)) (siblingGroup cs (cat_id c)) ts"]
    by blast
  let ?G = "\<lambda>c. CategoryTree (?deco c) (sub c)"
  have th: "those (map (\<lambda>child. map_option (\<lambda>childCategories. CategoryTree (?deco child) childCategories)
                       (buildTree fuel ?m (cat_id child) (level + 1))) ?children) =
            Some (map ?G ?children)"
    by (rule those_map_Some) (simp add: child)
  have res: "buildTree (Suc fuel) ?m pid level = Some (map ?G (siblingGroup cs pid))"
    by (simp add: categoryMap_children th sort_by_map siblingGroup_def)
  have "list_all2 (projected cs level) (siblingGroup cs pid) (map ?G (siblingGroup cs pid))"
    using child by (simp add: list_all2_map2 list_all2_same siblingGroup_def)
  with res show ?case by blast
qed

text \<open>
  C7, as the claim states its last part: a category with a persisted \<open>folderState\<close> would
  keep it. The root-level category \<open>work\<close> is stored collapsed and is projected expanded.
\<close>

theorem buildCategoryTree_folderState_counterexample:
  "cat_folderState ((exampleCategory ''work'' None 1 None)\<lparr>cat_folderState := Some COLLAPSED\<rparr>) = Some COLLAPSED \<and>
   map (\<lambda>t. (cat_id (ct_category t), cat_folderState (ct_category t)))
     (the (buildCategoryTree 3 [(exampleCategory ''work'' None 1 None)\<lparr>cat_folderState := Some COLLAPSED\<rparr>])) =
     [(''work'', Some EXPANDED)]"
  by (simp add: buildCategoryTree_def categoryMapFill_def categoryMapInit_def exampleCategory_def
      parentKey_def numeral_3_eq_3 sort_by_def defaultFolderState_def)

text \<open>
  C7, amended. Let the parent links be acyclic: some rank \<open>h\<close> is smaller at every
  category's id than at its parent key (\<open>parentId\<close>, or \<open>'root'\<close>). Then \<open>buildCategoryTree\<close>
  returns, at every depth bound above \<open>h 'root'\<close>, the forest whose roots are the sibling
  group of \<open>'root'\<close> at level 0 and where the children of a node at level \<open>l\<close> are the sibling
  group of its id at level \<open>l + 1\<close>; every sibling group is sorted by \<open>order\<close> ascending, and
  every node has the folder state of its level (expanded at level 0, collapsed below),
  whatever \<open>folderState\<close> the category had.
\<close>

theorem buildCategoryTree_spec:
  fixes h :: "string \<Rightarrow> nat"
  assumes "\<forall>c \<in> set categories. h (cat_id c) < h (parentKey c)" and "h ''root'' < fuel"
  shows "\<exists>trees. buildCategoryTree fuel categories = Some trees \<and>
           list_all2 (projected categories 0) (siblingGroup categories ''root'') trees"
  unfolding buildCategoryTree_def
  by (rule buildTree_projected[OF assms])

theorem buildCategoryTree_spec_witness:
  "list_all (\<lambda>c. exampleRank (cat_id c) < exampleRank (parentKey c)) exampleCategories \<and>
   exampleRank ''root'' < 3 \<and>
   (\<exists>trees. buildCategoryTree 3 exampleCategories = Some trees \<and>
      list_all2 (projected exampleCategories 0) (siblingGroup exampleCategories ''root'') trees)"
proof -
  have h: "\<forall>c \<in> set exampleCategories. exampleRank (cat_id c) < exampleRank (parentKey c)"
    by (simp add: exampleCategories_def exampleCategory_def exampleRank_def parentKey_def)
  have f: "exampleRank ''root'' < 3"
    by (simp add: exampleRank_def)
  from buildCategoryTree_spec [OF h f] h f show ?thesis
    by (simp add: list_all_iff)
qed

section \<open>Verification: synchronisation\<close>

lemma withFavicon_idem: "withFavicon js (withFavicon js b) = withFavicon js b"
  by (auto simp: withFavicon_def truthy_def split: option.splits)

lemma withFavicon_fields [simp]:
  "bm_originalId (withFavicon js b) = bm_originalId b"
  "bm_url (withFavicon js b) = bm_url b"
  "bm_title (withFavicon js b) = bm_title b"
  "bm_categoryId (withFavicon js b) = bm_categoryId b"
  by (auto simp: withFavicon_def split: option.splits)

lemma withFavicon_updatedAt:
  "withFavicon js (b\<lparr>bm_updatedAt := t\<rparr>) = (withFavicon js b)\<lparr>bm_updatedAt := t\<rparr>"
  by (auto simp: withFavicon_def split: option.splits)

lemma convertNode_folder:
  "\<not> truthy (bn_url n) \<Longrightarrow> convertNode js u now M n (bs, k) = (bs, k)"
  by (auto simp: convertNode_def truthy_def split: option.splits)

lemma convertNode_leaf:
  assumes "truthy (bn_url n)"
  shows "\<exists>b k'. convertNode js u now M n (bs, k) = (bs @ [b], k') \<and> mirrors js b n \<and>
           bm_updatedAt b = now \<and>
           (case map_of M (Some (bn_id n)) of
              Some e \<Rightarrow> bm_categoryId b = bm_categoryId e \<and> bm_id b = bm_id e
            | None \<Rightarrow> bm_categoryId b = ''uncategorized'')"
proof -
  from assms obtain url where url: "bn_url n = Some url" "url \<noteq> []"
    by (auto simp: truthy_def split: option.splits)
  show ?thesis
  proof (cases "map_of M (Some (bn_id n))")
    case None
    with url show ?thesis
      by (simp add: convertNode_def mirrors_def withFavicon_idem)
        (simp add: withFavicon_def split: option.splits)
  next
    case (Some e)
    with url show ?thesis
      by (simp add: convertNode_def mirrors_def withFavicon_idem)
        (simp add: withFavicon_def split: option.splits)
  qed
qed

lemma fold_convertNode_shape:
  "\<exists>bs' k'. fold (convertNode js u now M) nodes (bs, k) = (bs @ bs', k') \<and>
            list_all2 (mirrors js) bs' (hostLeaves nodes) \<and>
            (\<forall>b \<in> set bs'. bm_updatedAt b = now)"
proof (induction nodes arbitrary: bs k)
  case Nil
  then show ?case by (simp add: hostLeaves_def)
next
  case (Cons n nodes)
  show ?case
  proof (cases "truthy (bn_url n)")
    case False
    with Cons.IH[of bs k] show ?thesis
      by (simp add: convertNode_folder hostLeaves_def)
  next
    case True
    from convertNode_leaf[OF True, of js u now M bs k]
    obtain b k1 where step: "convertNode js u now M n (bs, k) = (bs @ [b], k1)"
      and m: "mirrors js b n" and t: "bm_updatedAt b = now" by blast
    from Cons.IH[of "bs @ [b]" k1]
    obtain bs' k' where rest: "fold (convertNode js u now M) nodes (bs @ [b], k1) = ((bs @ [b]) @ bs', k')"
      and l: "list_all2 (mirrors js) bs' (hostLeaves nodes)"
      and ts: "\<forall>b \<in> set bs'. bm_updatedAt b = now" by blast
    have "fold (convertNode js u now M) (n # nodes) (bs, k) = (bs @ (b # bs'), k')"
      using step rest by simp
    moreover have "list_all2 (mirrors js) (b # bs') (hostLeaves (n # nodes))"
      using True m l by (simp add: hostLeaves_def)
    moreover have "\<forall>x \<in> set (b # bs'). bm_updatedAt x = now"
      using t ts by simp
    ultimately show ?thesis by blast
  qed
qed


lemma find_append:
  "find P (xs @ ys) = (case find P xs of Some x \<Rightarrow> Some x | None \<Rightarrow> find P ys)"
  by (induction xs) auto

lemma map_of_fold_update:
  "map_of (fold (\<lambda>b m. AList.update (f b) b m) bs m0) k =
     (case find (\<lambda>b. f b = k) (rev bs) of Some b \<Rightarrow> Some b | None \<Rightarrow> map_of m0 k)"
proof (induction bs arbitrary: m0)
  case Nil
  then show ?case by simp
next
  case (Cons b bs)
  show ?case
    by (simp add: Cons.IH find_append AList.update_conv' split: option.splits)
qed

lemma bookmarkMapOf_lookup:
  assumes "distinct (map bm_originalId bs)" "b \<in> set bs"
  shows "map_of (bookmarkMapOf bs) (bm_originalId b) = Some b"
proof -
  have "find (\<lambda>x. bm_originalId x = bm_originalId b) (rev bs) = Some b"
    using assms by (intro find_by_key) (simp_all add: rev_map[symmetric])
  then show ?thesis
    by (simp add: bookmarkMapOf_def map_of_fold_update)
qed

lemma convertNode_again:
  assumes "mirrors js b n" "truthy (bn_url n)" "map_of M (Some (bn_id n)) = Some b"
  shows "convertNode js u now M n (acc, k) = (acc @ [b\<lparr>bm_updatedAt := now\<rparr>], k)"
proof -
  from assms(1) have url: "bn_url n = Some (bm_url b)" and fav: "withFavicon js b = b"
    and oid: "bm_originalId b = Some (bn_id n)"
    and title: "bn_title n \<noteq> [] \<Longrightarrow> bm_title b = bn_title n"
    by (auto simp: mirrors_def)
  from assms(2) url have ne: "bm_url b \<noteq> []" by (simp add: truthy_def)
  have e1: "b\<lparr>bm_title := bn_title n, bm_updatedAt := now, bm_originalId := Some (bn_id n)\<rparr> =
            b\<lparr>bm_updatedAt := now\<rparr>" if "bn_title n \<noteq> []"
    by (simp add: title[OF that, symmetric] oid[symmetric])
  have e2: "b\<lparr>bm_updatedAt := now, bm_originalId := Some (bn_id n)\<rparr> = b\<lparr>bm_updatedAt := now\<rparr>"
    by (simp add: oid[symmetric])
  show ?thesis
    using url ne assms(3) e1 e2 by (auto simp add: convertNode_def withFavicon_updatedAt fav)
qed

lemma fold_convertNode_again:
  "list_all2 (\<lambda>b n. mirrors js b n \<and> map_of M (Some (bn_id n)) = Some b) bs1 (hostLeaves nodes) \<Longrightarrow>
   fold (convertNode js u now M) nodes (acc, k) = (acc @ map (\<lambda>b. b\<lparr>bm_updatedAt := now\<rparr>) bs1, k)"
proof (induction nodes arbitrary: bs1 acc)
  case Nil
  then show ?case by (simp add: hostLeaves_def)
next
  case (Cons n nodes)
  show ?case
  proof (cases "truthy (bn_url n)")
    case False
    with Cons.prems have "list_all2 (\<lambda>b n. mirrors js b n \<and> map_of M (Some (bn_id n)) = Some b) bs1 (hostLeaves nodes)"
      by (simp add: hostLeaves_def)
    from Cons.IH[OF this, of acc] False show ?thesis
      by (simp add: convertNode_folder)
  next
    case True
    with Cons.prems obtain b bs' where bs1: "bs1 = b # bs'"
      and b: "mirrors js b n" "map_of M (Some (bn_id n)) = Some b"
      and rest: "list_all2 (\<lambda>b n. mirrors js b n \<and> map_of M (Some (bn_id n)) = Some b) bs' (hostLeaves nodes)"
      by (auto simp: hostLeaves_def list_all2_Cons2)
    from Cons.IH[OF rest, of "acc @ [b\<lparr>bm_updatedAt := now\<rparr>]"] convertNode_again[OF b(1) True b(2), of u now acc k]
    show ?thesis by (simp add: bs1)
  qed
qed

lemma mirrors_lookup:
  assumes l: "list_all2 (mirrors js) bs1 leaves" and d: "distinct (map bn_id leaves)"
  shows "list_all2 (\<lambda>b n. mirrors js b n \<and> map_of (bookmarkMapOf bs1) (Some (bn_id n)) = Some b) bs1 leaves"
proof -
  have ids: "map bm_originalId bs1 = map (\<lambda>n. Some (bn_id n)) leaves"
    using l by (induction rule: list_all2_induct) (auto simp: mirrors_def)
  have "distinct (map (\<lambda>n. Some (bn_id n)) leaves)"
    using d by (simp add: distinct_map inj_on_def)
  with ids have dd: "distinct (map bm_originalId bs1)" by simp
  show ?thesis
    unfolding list_all2_conv_all_nth
  proof (intro conjI allI impI)
    show "length bs1 = length leaves" using l by (rule list_all2_lengthD)
  next
    fix i assume i: "i < length bs1"
    with l show "mirrors js (bs1 ! i) (leaves ! i)" by (simp add: list_all2_nthD)
    then have "bm_originalId (bs1 ! i) = Some (bn_id (leaves ! i))" by (simp add: mirrors_def)
    with bookmarkMapOf_lookup[OF dd, of "bs1 ! i"] i
    show "map_of (bookmarkMapOf bs1) (Some (bn_id (leaves ! i))) = Some (bs1 ! i)" by simp
  qed
qed

text \<open>
  A second \<open>convertBrowserBookmarks\<close> over an unchanged host whose bookmark nodes have
  pairwise different ids, from the output of the first: it returns the records and the
  categories of the first, with the time of the second pass as \<open>updatedAt\<close> and no other
  change.
\<close>

lemma recount_recount:
  assumes "\<forall>i. length (filter (\<lambda>b. bm_categoryId b = i) bs2) = length (filter (\<lambda>b. bm_categoryId b = i) bs1)"
  shows "recount now2 bs2 (recount now1 bs1 cs) = map (\<lambda>c. c\<lparr>cat_updatedAt := now2\<rparr>) (recount now1 bs1 cs)"
  using assms by (simp add: recount_def)

lemma convert_idempotent:
  assumes d: "distinct (map bn_id (hostLeaves nodes))"
  shows "convertBrowserBookmarks js u2 now2 nodes
           (fst (convertBrowserBookmarks js u1 now1 nodes B C))
           (snd (convertBrowserBookmarks js u1 now1 nodes B C)) =
         (map (\<lambda>b. b\<lparr>bm_updatedAt := now2\<rparr>) (fst (convertBrowserBookmarks js u1 now1 nodes B C)),
          map (\<lambda>c. c\<lparr>cat_updatedAt := now2\<rparr>) (snd (convertBrowserBookmarks js u1 now1 nodes B C)))"
proof -
  define C0 where "C0 = (if length C > 0 then C else DEFAULT_CATEGORIES now1)"
  obtain bs1 k1 where f1: "fold (convertNode js u1 now1 (bookmarkMapOf B)) nodes ([], 0) = (bs1, k1)"
    and m1: "list_all2 (mirrors js) bs1 (hostLeaves nodes)"
    using fold_convertNode_shape[of js u1 now1 "bookmarkMapOf B" nodes "[]" 0] by auto
  have r1: "convertBrowserBookmarks js u1 now1 nodes B C = (bs1, recount now1 bs1 C0)"
    using f1 by (simp add: convertBrowserBookmarks_def C0_def Let_def)
  have ne: "length (recount now1 bs1 C0) > 0"
    by (simp add: recount_def C0_def DEFAULT_CATEGORIES_def)
  have f2: "fold (convertNode js u2 now2 (bookmarkMapOf bs1)) nodes ([], 0) =
            (map (\<lambda>b. b\<lparr>bm_updatedAt := now2\<rparr>) bs1, 0)"
    using fold_convertNode_again[OF mirrors_lookup[OF m1 d], of u2 now2 "[]" 0] by simp
  have cnt: "\<forall>i. length (filter (\<lambda>b. bm_categoryId b = i) (map (\<lambda>b. b\<lparr>bm_updatedAt := now2\<rparr>) bs1)) =
                  length (filter (\<lambda>b. bm_categoryId b = i) bs1)"
    by (simp add: filter_map comp_def)
  show ?thesis
    unfolding r1 using ne f2 recount_recount[OF cnt, of now2 now1 C0]
    by (simp add: convertBrowserBookmarks_def Let_def)
qed

lemma namePairs_append [simp]: "namePairs (xs @ ys) = namePairs xs @ namePairs ys"
  by (simp add: namePairs_def)

lemma namePairs_count_update [simp]:
  "namePairs (cs[k := (cs ! k)\<lparr>cat_bookmarkCount := v\<rparr>]) = namePairs cs"
proof (cases "k < length cs")
  case True
  then show ?thesis
    by (simp add: namePairs_def map_update list_update_same_conv)
next
  case False
  then show ?thesis by (simp add: list_update_beyond not_less)
qed

lemma hasFolder_mono:
  "prefix (namePairs cs) (namePairs cs') \<Longrightarrow> hasFolder cs f \<Longrightarrow> hasFolder cs' f"
  by (auto simp: hasFolder_def dest: set_mono_prefix)

lemma passOk_comp:
  assumes F: "passOk now E F l1 f1" and G: "passOk now E G l2 f2"
  shows "passOk now E (G \<circ> F) (l1 @ l2) (f1 @ f2)"
  unfolding passOk_def
proof (intro allI impI)
  fix st :: SyncState
  assume pre: "prefix (namePairs E) (namePairs (sy_newCategories st))"
  from F pre obtain bs1 where b1: "sy_bookmarks (F st) = sy_bookmarks st @ bs1"
      "list_all2 (fresh now) bs1 l1"
    and p1: "prefix (namePairs (sy_newCategories st)) (namePairs (sy_newCategories (F st)))"
    and h1: "\<forall>f \<in> set f1. hasFolder (sy_newCategories (F st)) f"
    unfolding passOk_def by blast
  from pre p1 have pre': "prefix (namePairs E) (namePairs (sy_newCategories (F st)))"
    by (rule prefix_order.trans)
  from G pre' obtain bs2 where b2: "sy_bookmarks (G (F st)) = sy_bookmarks (F st) @ bs2"
      "list_all2 (fresh now) bs2 l2"
    and p2: "prefix (namePairs (sy_newCategories (F st))) (namePairs (sy_newCategories (G (F st))))"
    and h2: "\<forall>f \<in> set f2. hasFolder (sy_newCategories (G (F st))) f"
    unfolding passOk_def by blast
  have "sy_bookmarks ((G \<circ> F) st) = sy_bookmarks st @ (bs1 @ bs2)"
    using b1(1) b2(1) by simp
  moreover have "list_all2 (fresh now) (bs1 @ bs2) (l1 @ l2)"
    using b1(2) b2(2) by (rule list_all2_appendI)
  moreover have "prefix (namePairs (sy_newCategories st)) (namePairs (sy_newCategories ((G \<circ> F) st)))"
    using p1 p2 by (simp add: prefix_order.trans)
  moreover have "\<forall>f \<in> set (f1 @ f2). hasFolder (sy_newCategories ((G \<circ> F) st)) f"
    using h1 h2 hasFolder_mono[OF p2] by auto
  ultimately show "(\<exists>bs. sy_bookmarks ((G \<circ> F) st) = sy_bookmarks st @ bs \<and>
            list_all2 (fresh now) bs (l1 @ l2)) \<and>
       prefix (namePairs (sy_newCategories st)) (namePairs (sy_newCategories ((G \<circ> F) st))) \<and>
       (\<forall>f \<in> set (f1 @ f2). hasFolder (sy_newCategories ((G \<circ> F) st)) f)"
    by blast
qed

lemma passOk_id: "passOk now E (\<lambda>st. st) [] []"
  by (simp add: passOk_def)

lemma passOk_fold:
  assumes "\<And>c. c \<in> set cs \<Longrightarrow> passOk now E (P c) (L c) (Fd c)"
  shows "passOk now E (fold P cs) (concat (map L cs)) (concat (map Fd cs))"
  using assms
proof (induction cs)
  case Nil
  then show ?case by (simp add: passOk_id id_def)
next
  case (Cons c cs)
  have "passOk now E (fold P cs \<circ> P c) (L c @ concat (map L cs)) (Fd c @ concat (map Fd cs))"
    by (rule passOk_comp) (simp_all add: Cons)
  then show ?case by (simp add: comp_def)
qed


lemma createBookmark_props:
  "\<exists>b. sy_bookmarks (createBookmark uuidv4 now node url pc ex st) = sy_bookmarks st @ [b] \<and>
        bm_originalId b = Some (bn_id node) \<and> bm_updatedAt b = now"
  "namePairs (sy_newCategories (createBookmark uuidv4 now node url pc ex st)) =
     namePairs (sy_newCategories st)"
  by (simp_all add: createBookmark_def Let_def syncedBookmark_def split: option.splits)

lemma processLeaf_passOk:
  assumes "keyed M"
  shows "passOk now E (processLeaf uuidv4 now M node url pc) [node] []"
  unfolding passOk_def
proof (intro allI impI)
  fix st :: SyncState
  assume "prefix (namePairs E) (namePairs (sy_newCategories st))"
  let ?st' = "processLeaf uuidv4 now M node url pc st"
  have "(\<exists>b. sy_bookmarks ?st' = sy_bookmarks st @ [b] \<and> fresh now b node) \<and>
        namePairs (sy_newCategories ?st') = namePairs (sy_newCategories st)"
  proof (cases "map_of M (bn_id node)")
    case None
    with createBookmark_props[of uuidv4 now node url pc None st] show ?thesis
      by (auto simp: processLeaf_def fresh_def)
  next
    case (Some e)
    with assms have oid: "bm_originalId e = Some (bn_id node)" by (simp add: keyed_def)
    show ?thesis
    proof (cases "bm_updatedAt e \<ge> orElse (bn_dateAdded node) 0")
      case True
      with Some oid show ?thesis by (simp add: processLeaf_def fresh_def)
    next
      case False
      with Some createBookmark_props[of uuidv4 now node url pc "Some e" st] show ?thesis
        by (auto simp: processLeaf_def fresh_def)
    qed
  qed
  then show "(\<exists>bs. sy_bookmarks ?st' = sy_bookmarks st @ bs \<and> list_all2 (fresh now) bs [node]) \<and>
       prefix (namePairs (sy_newCategories st)) (namePairs (sy_newCategories ?st')) \<and>
       (\<forall>f \<in> set []. hasFolder (sy_newCategories ?st') f)"
    by auto
qed

lemma passOk_add_folder:
  assumes "passOk now E F l fs"
    and "\<And>st. prefix (namePairs E) (namePairs (sy_newCategories st)) \<Longrightarrow> hasFolder (sy_newCategories (F st)) f"
  shows "passOk now E F l (f # fs)"
  using assms unfolding passOk_def by simp

lemma processBookmarkNode_passOk:
  assumes k: "keyed M"
  shows "passOk now E (processBookmarkNode uuidv4 now E M n pc) (visitedLeaves n) (visitedFolders n)"
proof (induction n arbitrary: pc)
  case (BrowserBookmarkNode i p ix u t d g cs)
  let ?node = "BrowserBookmarkNode i p ix u t d g cs"
  have IH: "passOk now E (processBookmarkNode uuidv4 now E M c pc') (visitedLeaves c) (visitedFolders c)"
    if "c \<in> set cs" for c pc'
    using BrowserBookmarkNode that by simp
  have kids: "passOk now E (fold (\<lambda>child. processBookmarkNode uuidv4 now E M child pc') cs)
                (concat (map visitedLeaves cs)) (concat (map visitedFolders cs))" for pc'
    by (rule passOk_fold) (rule IH)
  show ?case
  proof (cases "truthy p")
    case False
    have "processBookmarkNode uuidv4 now E M ?node pc =
          fold (\<lambda>child. processBookmarkNode uuidv4 now E M child None) cs"
      using False by (simp add: fun_eq_iff)
    with kids[of None] False show ?thesis by simp
  next
    case p: True
    show ?thesis
    proof (cases "truthy u")
      case True
      have "processBookmarkNode uuidv4 now E M ?node pc =
            processLeaf uuidv4 now M ?node (case u of Some url \<Rightarrow> url | None \<Rightarrow> []) pc"
        using p True by (simp add: fun_eq_iff)
      with processLeaf_passOk[OF k] p True show ?thesis by simp
    next
      case u: False
      show ?thesis
      proof (cases "find (\<lambda>c. cat_name c = t \<and> cat_builtin c \<noteq> Some True) E")
        case (Some ec)
        then have ec: "ec \<in> set E" "cat_name ec = t" "cat_builtin ec \<noteq> Some True"
          by (auto simp: find_Some_iff)
        have f: "processBookmarkNode uuidv4 now E M ?node pc =
              fold (\<lambda>child. processBookmarkNode uuidv4 now E M child (Some (cat_id ec))) cs"
          using p u Some by (simp add: fun_eq_iff)
        have inE: "hasFolder E ?node"
          using ec by (auto simp: hasFolder_def namePairs_def image_iff intro!: exI[of _ "cat_builtin ec"] bexI[of _ ec])
        have "passOk now E (fold (\<lambda>child. processBookmarkNode uuidv4 now E M child (Some (cat_id ec))) cs)
                (concat (map visitedLeaves cs)) (?node # concat (map visitedFolders cs))"
        proof (rule passOk_add_folder[OF kids])
          fix st :: SyncState
          assume pre: "prefix (namePairs E) (namePairs (sy_newCategories st))"
          let ?F = "fold (\<lambda>child. processBookmarkNode uuidv4 now E M child (Some (cat_id ec))) cs"
          from kids[of "Some (cat_id ec)"] pre
          have "prefix (namePairs (sy_newCategories st)) (namePairs (sy_newCategories (?F st)))"
            unfolding passOk_def by blast
          with pre have "prefix (namePairs E) (namePairs (sy_newCategories (?F st)))"
            by (rule prefix_order.trans)
          from hasFolder_mono[OF this inE] show "hasFolder (sy_newCategories (?F st)) ?node" .
        qed
        with f p u show ?thesis by simp
      next
        case None
        let ?G = "\<lambda>st. st\<lparr>sy_newCategories := sy_newCategories st @
                       [newFolderCategory now (uuidv4 (sy_uuidCalls st)) ?node pc],
                    sy_categoryMap := AList.update (uuidv4 (sy_uuidCalls st))
                                        (length (sy_newCategories st)) (sy_categoryMap st),
                    sy_uuidCalls := Suc (sy_uuidCalls st)\<rparr>"
        let ?F = "\<lambda>st. fold (\<lambda>child. processBookmarkNode uuidv4 now E M child
                             (Some (uuidv4 (sy_uuidCalls st)))) cs (?G st)"
        have f: "processBookmarkNode uuidv4 now E M ?node pc = ?F"
          using p u None by (simp add: fun_eq_iff)
        have "passOk now E ?F (concat (map visitedLeaves cs)) (?node # concat (map visitedFolders cs))"
          unfolding passOk_def
        proof (intro allI impI)
          fix st :: SyncState
          assume pre: "prefix (namePairs E) (namePairs (sy_newCategories st))"
          let ?K = "fold (\<lambda>child. processBookmarkNode uuidv4 now E M child
                             (Some (uuidv4 (sy_uuidCalls st)))) cs"
          have p1: "prefix (namePairs (sy_newCategories st)) (namePairs (sy_newCategories (?G st)))"
            by simp
          with pre have pre1: "prefix (namePairs E) (namePairs (sy_newCategories (?G st)))"
            by (rule prefix_order.trans)
          from kids[of "Some (uuidv4 (sy_uuidCalls st))"] pre1
          obtain bs where b: "sy_bookmarks (?K (?G st)) = sy_bookmarks (?G st) @ bs"
              "list_all2 (fresh now) bs (concat (map visitedLeaves cs))"
            and p2: "prefix (namePairs (sy_newCategories (?G st))) (namePairs (sy_newCategories (?K (?G st))))"
            and h: "\<forall>f \<in> set (concat (map visitedFolders cs)). hasFolder (sy_newCategories (?K (?G st))) f"
            unfolding passOk_def by blast
          have "hasFolder (sy_newCategories (?G st)) ?node"
            by (auto simp: hasFolder_def namePairs_def newFolderCategory_def)
          from hasFolder_mono[OF p2 this] have hn: "hasFolder (sy_newCategories (?K (?G st))) ?node" .
          from p1 p2 have p3: "prefix (namePairs (sy_newCategories st)) (namePairs (sy_newCategories (?K (?G st))))"
            by (rule prefix_order.trans)
          from b have b': "sy_bookmarks (?K (?G st)) = sy_bookmarks st @ bs" by simp
          show "(\<exists>bs. sy_bookmarks (?F st) = sy_bookmarks st @ bs \<and>
                   list_all2 (fresh now) bs (concat (map visitedLeaves cs))) \<and>
               prefix (namePairs (sy_newCategories st)) (namePairs (sy_newCategories (?F st))) \<and>
               (\<forall>f \<in> set (?node # concat (map visitedFolders cs)). hasFolder (sy_newCategories (?F st)) f)"
            using b' b(2) p3 hn h by auto
        qed
        with f p u show ?thesis by simp
      qed
    qed
  qed
qed

lemma passAgain_fold:
  assumes "\<And>c. c \<in> set cs \<Longrightarrow> passAgain m (P c) (L c)"
  shows "passAgain m (fold P cs) (concat (map L cs))"
  using assms
proof (induction cs)
  case Nil
  then show ?case by (simp add: passAgain_def)
next
  case (Cons c cs)
  then have c: "passAgain m (P c) (L c)" and r: "passAgain m (fold P cs) (concat (map L cs))"
    by simp_all
  show ?case
    unfolding passAgain_def
  proof
    fix st :: SyncState
    show "fold P (c # cs) st =
          st\<lparr>sy_bookmarks := sy_bookmarks st @ map (\<lambda>l. the (map_of m (bn_id l))) (concat (map L (c # cs)))\<rparr>"
      using c[unfolded passAgain_def, rule_format, of st]
        r[unfolded passAgain_def, rule_format, of "P c st"]
      by simp
  qed
qed

lemma processBookmarkNode_passAgain:
  assumes folders: "\<forall>f \<in> set (visitedFolders n).
              find (\<lambda>c. cat_name c = bn_title f \<and> cat_builtin c \<noteq> Some True) E \<noteq> None"
    and leaves: "\<forall>l \<in> set (visitedLeaves n).
              \<exists>e. map_of M (bn_id l) = Some e \<and> orElse (bn_dateAdded l) 0 \<le> bm_updatedAt e"
  shows "passAgain M (processBookmarkNode uuidv4 now E M n pc) (visitedLeaves n)"
  using folders leaves
proof (induction n arbitrary: pc)
  case (BrowserBookmarkNode i p ix u t d g cs)
  let ?node = "BrowserBookmarkNode i p ix u t d g cs"
  show ?case
  proof (cases "truthy p \<and> truthy u")
    case True
    with BrowserBookmarkNode.prems(2) obtain e where e: "map_of M i = Some e"
        "orElse d 0 \<le> bm_updatedAt e"
      by auto
    with True show ?thesis
      by (simp add: passAgain_def processLeaf_def)
  next
    case False
    have sub: "set (visitedFolders c) \<subseteq> set (visitedFolders ?node)"
              "set (visitedLeaves c) \<subseteq> set (visitedLeaves ?node)" if "c \<in> set cs" for c
      using False that by auto
    have IH: "passAgain M (processBookmarkNode uuidv4 now E M c pc') (visitedLeaves c)"
      if "c \<in> set cs" for c pc'
      using BrowserBookmarkNode.IH[OF that] BrowserBookmarkNode.prems sub[OF that]
      by (meson subsetD)
    have kids: "passAgain M (fold (\<lambda>child. processBookmarkNode uuidv4 now E M child pc') cs)
                  (concat (map visitedLeaves cs))" for pc'
      by (rule passAgain_fold) (rule IH)
    show ?thesis
    proof (cases "truthy p")
      case False
      have "processBookmarkNode uuidv4 now E M ?node pc =
            fold (\<lambda>child. processBookmarkNode uuidv4 now E M child None) cs"
        using False by (simp add: fun_eq_iff)
      with kids[of None] False show ?thesis by simp
    next
      case p: True
      with False have u: "\<not> truthy u" by simp
      from p u BrowserBookmarkNode.prems(1)
      obtain ec where ec: "find (\<lambda>c. cat_name c = t \<and> cat_builtin c \<noteq> Some True) E = Some ec"
        by auto
      have "processBookmarkNode uuidv4 now E M ?node pc =
            fold (\<lambda>child. processBookmarkNode uuidv4 now E M child (Some (cat_id ec))) cs"
        using p u ec by (simp add: fun_eq_iff)
      with kids[of "Some (cat_id ec)"] p u show ?thesis by simp
    qed
  qed
qed

lemma map_of_bookmarkMapOfSync_fold:
  "map_of (fold (\<lambda>bookmark m.
             case bm_originalId bookmark of
               None \<Rightarrow> m
             | Some originalId \<Rightarrow> if originalId \<noteq> [] then AList.update originalId bookmark m else m)
       bs m0) k =
   (case find (\<lambda>b. bm_originalId b = Some k \<and> k \<noteq> []) (rev bs) of
      Some b \<Rightarrow> Some b
    | None \<Rightarrow> map_of m0 k)"
proof (induction bs arbitrary: m0)
  case Nil
  then show ?case by simp
next
  case (Cons b bs)
  show ?case
    by (auto simp: Cons.IH find_append AList.update_conv' split: option.splits)
qed

lemma bookmarkMapOfSync_lookup:
  "map_of (bookmarkMapOfSync bs) k = find (\<lambda>b. bm_originalId b = Some k \<and> k \<noteq> []) (rev bs)"
  by (simp add: bookmarkMapOfSync_def map_of_bookmarkMapOfSync_fold split: option.splits)

lemma keyed_bookmarkMapOfSync: "keyed (bookmarkMapOfSync bs)"
  by (auto simp: keyed_def bookmarkMapOfSync_lookup find_Some_iff)

lemma sync_first_pass:
  "\<exists>bs1 cs1.
     syncBookmarks uuidv4 now (root # rest) sto =
       Inr (sto\<lparr>sto_bookmarks := bs1, sto_categories := cs1, sto_lastSync := now\<rparr>) \<and>
     list_all2 (fresh now) bs1 (hostLeavesOfTree root) \<and>
     (\<forall>f \<in> set (concat (map visitedFolders (bn_children root))). hasFolder cs1 f)"
proof -
  let ?E = "sto_categories sto"
  let ?M = "bookmarkMapOfSync (sto_bookmarks sto)"
  let ?st0 = "\<lparr>sy_bookmarks = [], sy_newCategories = ?E,
               sy_categoryMap = categoryMapOfSync ?E, sy_uuidCalls = 0\<rparr>"
  let ?F = "fold (\<lambda>child. processBookmarkNode uuidv4 now ?E ?M child None) (bn_children root)"
  have "passOk now ?E ?F (concat (map visitedLeaves (bn_children root)))
          (concat (map visitedFolders (bn_children root)))"
    by (rule passOk_fold) (rule processBookmarkNode_passOk[OF keyed_bookmarkMapOfSync])
  moreover have "prefix (namePairs ?E) (namePairs (sy_newCategories ?st0))" by simp
  ultimately obtain bs where "sy_bookmarks (?F ?st0) = sy_bookmarks ?st0 @ bs"
      "list_all2 (fresh now) bs (concat (map visitedLeaves (bn_children root)))"
      "\<forall>f \<in> set (concat (map visitedFolders (bn_children root))). hasFolder (sy_newCategories (?F ?st0)) f"
    unfolding passOk_def by blast
  then show ?thesis
    by (auto simp: syncBookmarks_def Let_def hostLeavesOfTree_def)
qed

lemma fresh_lookup:
  assumes l: "list_all2 (fresh now) bs1 leaves"
    and d: "distinct (map bn_id leaves)"
    and ne: "\<forall>l \<in> set leaves. bn_id l \<noteq> []"
    and i: "i < length leaves"
  shows "map_of (bookmarkMapOfSync bs1) (bn_id (leaves ! i)) = Some (bs1 ! i)"
proof -
  have len: "length bs1 = length leaves" using l by (rule list_all2_lengthD)
  have ids: "map bm_originalId bs1 = map (\<lambda>n. Some (bn_id n)) leaves"
    using l by (induction rule: list_all2_induct) (auto simp: fresh_def)
  have "distinct (map (\<lambda>n. Some (bn_id n)) leaves)"
    using d by (simp add: distinct_map inj_on_def)
  with ids have dd: "distinct (map bm_originalId (rev bs1))" by (simp add: rev_map[symmetric])
  have mem: "bs1 ! i \<in> set (rev bs1)" using i len by simp
  have "fresh now (bs1 ! i) (leaves ! i)"
    using l i len by (simp add: list_all2_conv_all_nth)
  then have oid: "bm_originalId (bs1 ! i) = Some (bn_id (leaves ! i))"
    by (simp add: fresh_def)
  have nonempty: "bn_id (leaves ! i) \<noteq> []" using ne i by simp
  have "find (\<lambda>x. bm_originalId x = bm_originalId (bs1 ! i)) (rev bs1) = Some (bs1 ! i)"
    by (rule find_by_key[OF dd mem])
  then show ?thesis
    using oid nonempty by (simp add: bookmarkMapOfSync_lookup)
qed

lemma hasFolder_find:
  "hasFolder cs f \<Longrightarrow> find (\<lambda>c. cat_name c = bn_title f \<and> cat_builtin c \<noteq> Some True) cs \<noteq> None"
  by (auto simp: hasFolder_def namePairs_def find_None_iff)

text \<open>
  A second \<open>syncBookmarks\<close> over an unchanged host, from the state that the first left:
  it returns that state, only the time of the last synchronisation being written, when the
  bookmark nodes it reaches have pairwise different, non-empty ids and none of them is
  dated after the first pass.
\<close>

lemma sync_idempotent:
  assumes d: "distinct (map bn_id (hostLeavesOfTree root))"
    and ok: "\<forall>l \<in> set (hostLeavesOfTree root). bn_id l \<noteq> [] \<and> orElse (bn_dateAdded l) 0 \<le> now1"
  shows "\<exists>sto1. syncBookmarks u1 now1 (root # rest) sto = Inr sto1 \<and>
           syncBookmarks u2 now2 (root # rest) sto1 = Inr (sto1\<lparr>sto_lastSync := now2\<rparr>)"
proof -
  let ?leaves = "hostLeavesOfTree root"
  obtain bs1 cs1 where s1: "syncBookmarks u1 now1 (root # rest) sto =
       Inr (sto\<lparr>sto_bookmarks := bs1, sto_categories := cs1, sto_lastSync := now1\<rparr>)"
    and fr: "list_all2 (fresh now1) bs1 ?leaves"
    and hf: "\<forall>f \<in> set (concat (map visitedFolders (bn_children root))). hasFolder cs1 f"
    using sync_first_pass[of u1 now1 root rest sto] by blast
  let ?sto1 = "sto\<lparr>sto_bookmarks := bs1, sto_categories := cs1, sto_lastSync := now1\<rparr>"
  let ?M = "bookmarkMapOfSync bs1"
  let ?st0 = "\<lparr>sy_bookmarks = [], sy_newCategories = cs1,
               sy_categoryMap = categoryMapOfSync cs1, sy_uuidCalls = 0\<rparr>"
  let ?F = "fold (\<lambda>child. processBookmarkNode u2 now2 cs1 ?M child None) (bn_children root)"
  have len: "length bs1 = length ?leaves" using fr by (rule list_all2_lengthD)
  have look: "map_of ?M (bn_id (?leaves ! i)) = Some (bs1 ! i)" if "i < length ?leaves" for i
    using fresh_lookup[OF fr d _ that] ok by blast
  have upd: "orElse (bn_dateAdded (?leaves ! i)) 0 \<le> bm_updatedAt (bs1 ! i)" if "i < length ?leaves" for i
  proof -
    have "fresh now1 (bs1 ! i) (?leaves ! i)"
      using fr that len by (simp add: list_all2_conv_all_nth)
    moreover have "orElse (bn_dateAdded (?leaves ! i)) 0 \<le> now1"
      using ok that by simp
    ultimately show ?thesis by (simp add: fresh_def)
  qed
  have again: "passAgain ?M ?F (concat (map visitedLeaves (bn_children root)))"
  proof (rule passAgain_fold, rule processBookmarkNode_passAgain)
    fix c assume c: "c \<in> set (bn_children root)"
    show "\<forall>f \<in> set (visitedFolders c).
            find (\<lambda>c. cat_name c = bn_title f \<and> cat_builtin c \<noteq> Some True) cs1 \<noteq> None"
    proof
      fix f assume "f \<in> set (visitedFolders c)"
      with hf c have "hasFolder cs1 f" by auto
      then show "find (\<lambda>c. cat_name c = bn_title f \<and> cat_builtin c \<noteq> Some True) cs1 \<noteq> None"
        by (rule hasFolder_find)
    qed
    show "\<forall>l \<in> set (visitedLeaves c).
            \<exists>e. map_of ?M (bn_id l) = Some e \<and> orElse (bn_dateAdded l) 0 \<le> bm_updatedAt e"
    proof
      fix l assume "l \<in> set (visitedLeaves c)"
      with c have "l \<in> set ?leaves" by (auto simp: hostLeavesOfTree_def)
      then obtain i where i: "i < length ?leaves" "l = ?leaves ! i"
        by (auto simp: in_set_conv_nth)
      with look[OF i(1)] upd[OF i(1)]
      show "\<exists>e. map_of ?M (bn_id l) = Some e \<and> orElse (bn_dateAdded l) 0 \<le> bm_updatedAt e"
        by simp
    qed
  qed
  have "map (\<lambda>l. the (map_of ?M (bn_id l))) ?leaves = bs1"
    by (rule nth_equalityI) (simp_all add: len look)
  with again have "?F ?st0 = ?st0\<lparr>sy_bookmarks := bs1\<rparr>"
    by (simp add: passAgain_def hostLeavesOfTree_def)
  then have "syncBookmarks u2 now2 (root # rest) ?sto1 = Inr (?sto1\<lparr>sto_lastSync := now2\<rparr>)"
    by (simp add: syncBookmarks_def Let_def)
  with s1 show ?thesis by blast
qed

text \<open>
  What a pass returns. \<open>convertBrowserBookmarks\<close> returns one record per bookmark node of
  the sequence, in the order of the nodes, with the id of its node as \<open>originalId\<close> and the
  url of its node, and every record and every category carries the time of the pass as
  \<open>updatedAt\<close>. \<open>syncBookmarks\<close> returns one record per bookmark node that it reaches, in
  the order of the traversal, with the id of its node as \<open>originalId\<close>.
\<close>

lemma convert_shape:
  "list_all2 (\<lambda>b n. bm_originalId b = Some (bn_id n) \<and> bn_url n = Some (bm_url b))
     (fst (convertBrowserBookmarks js u now nodes B C)) (hostLeaves nodes) \<and>
   (\<forall>b \<in> set (fst (convertBrowserBookmarks js u now nodes B C)). bm_updatedAt b = now) \<and>
   (\<forall>c \<in> set (snd (convertBrowserBookmarks js u now nodes B C)). cat_updatedAt c = now)"
proof -
  obtain bs1 k1 where f1: "fold (convertNode js u now (bookmarkMapOf B)) nodes ([], 0) = (bs1, k1)"
    and m1: "list_all2 (mirrors js) bs1 (hostLeaves nodes)"
    and t1: "\<forall>b \<in> set bs1. bm_updatedAt b = now"
    using fold_convertNode_shape[of js u now "bookmarkMapOf B" nodes "[]" 0] by auto
  have "list_all2 (\<lambda>b n. bm_originalId b = Some (bn_id n) \<and> bn_url n = Some (bm_url b)) bs1 (hostLeaves nodes)"
    by (rule list_all2_mono[OF m1]) (simp add: mirrors_def)
  with f1 t1 show ?thesis
    by (simp add: convertBrowserBookmarks_def Let_def recount_def)
qed

lemma sync_shape:
  "\<exists>sto1. syncBookmarks uuidv4 now (root # rest) sto = Inr sto1 \<and>
      list_all2 (\<lambda>b l. bm_originalId b = Some (bn_id l)) (sto_bookmarks sto1) (hostLeavesOfTree root)"
proof -
  obtain bs1 cs1 where s1: "syncBookmarks uuidv4 now (root # rest) sto =
       Inr (sto\<lparr>sto_bookmarks := bs1, sto_categories := cs1, sto_lastSync := now\<rparr>)"
    and fr: "list_all2 (fresh now) bs1 (hostLeavesOfTree root)"
    using sync_first_pass[of uuidv4 now root rest sto] by blast
  have "list_all2 (\<lambda>b l. bm_originalId b = Some (bn_id l)) bs1 (hostLeavesOfTree root)"
    by (rule list_all2_mono[OF fr]) (simp add: fresh_def)
  with s1 show ?thesis by simp
qed

lemma list_all2_absent:
  assumes "list_all2 (\<lambda>b n. f b = g n \<and> Q b n) bs ns" and "\<forall>n \<in> set ns. f p \<noteq> g n"
  shows "p \<notin> set bs"
proof
  assume "p \<in> set bs"
  then obtain i where i: "i < length bs" "p = bs ! i" by (auto simp: in_set_conv_nth)
  from assms(1) have len: "length bs = length ns" by (rule list_all2_lengthD)
  from assms(1) i have "f p = g (ns ! i)" by (simp add: list_all2_conv_all_nth)
  moreover from i len have "ns ! i \<in> set ns" by simp
  ultimately show False using assms(2) by blast
qed

text \<open>
  C2, as the claim states its first part: a prior record without \<open>originalId\<close> would
  appear unchanged in the output. Both passes build the output from the host's bookmark
  nodes alone; the record \<open>a\<close>, which has no \<open>originalId\<close>, is in neither output.
\<close>

theorem sync_drops_unlinked_counterexample:
  "bm_originalId (exampleBookmark ''a'' ''work'' [] 0) = None \<and>
   exampleBookmark ''a'' ''work'' [] 0 \<notin>
     set (fst (convertBrowserBookmarks exampleBuiltins exampleUuid 5 exampleFlatHost
                 [exampleBookmark ''a'' ''work'' [] 0] [])) \<and>
   map_sum (\<lambda>e. e) (\<lambda>s. map bm_originalId (sto_bookmarks s))
     (syncBookmarks exampleUuid 5 exampleHost (exampleStorage [exampleBookmark ''a'' ''work'' [] 0] [] [])) =
     Inr [Some ''h1'', Some ''h2'']"
proof -
  have 1: "map bm_originalId (fst (convertBrowserBookmarks exampleBuiltins exampleUuid 5 exampleFlatHost
                 [exampleBookmark ''a'' ''work'' [] 0] [])) = [Some ''h1'', Some ''h2'']"
    by code_simp
  have 2: "map_sum (\<lambda>e. e) (\<lambda>s. map bm_originalId (sto_bookmarks s))
     (syncBookmarks exampleUuid 5 exampleHost (exampleStorage [exampleBookmark ''a'' ''work'' [] 0] [] [])) =
     Inr [Some ''h1'', Some ''h2'']"
    by code_simp
  have 3: "bm_originalId (exampleBookmark ''a'' ''work'' [] 0) = None"
    by (simp add: exampleBookmark_def)
  have "exampleBookmark ''a'' ''work'' [] 0 \<notin>
     set (fst (convertBrowserBookmarks exampleBuiltins exampleUuid 5 exampleFlatHost
                 [exampleBookmark ''a'' ''work'' [] 0] []))"
  proof
    assume "exampleBookmark ''a'' ''work'' [] 0 \<in>
     set (fst (convertBrowserBookmarks exampleBuiltins exampleUuid 5 exampleFlatHost
                 [exampleBookmark ''a'' ''work'' [] 0] []))"
    then have "bm_originalId (exampleBookmark ''a'' ''work'' [] 0) \<in>
       set (map bm_originalId (fst (convertBrowserBookmarks exampleBuiltins exampleUuid 5 exampleFlatHost
                 [exampleBookmark ''a'' ''work'' [] 0] [])))"
      by (simp only: set_map) (rule imageI)
    then show False unfolding 1 3 by simp
  qed
  with 2 3 show ?thesis by blast
qed

text \<open>
  C2, amended. The bookmarks that a pass returns are exactly one record per bookmark node
  (a node with a url) of the host, in the order of the host, each with the id of its node
  as \<open>originalId\<close>. Hence a prior record is absent from the output whenever its
  \<open>originalId\<close> is not the id of a bookmark node of the host: both a record whose
  \<open>originalId\<close> no longer occurs among the host nodes and a record that has no
  \<open>originalId\<close> at all. This holds for \<open>convertBrowserBookmarks\<close> and for \<open>syncBookmarks\<close>
  of the service, which always returns when the browser gives a tree.
\<close>

theorem sync_keeps_host_records_only:
  "list_all2 (\<lambda>b n. bm_originalId b = Some (bn_id n) \<and> bn_url n = Some (bm_url b))
      (fst (convertBrowserBookmarks js uuidv4 now nodes storedBookmarks storedCategories))
      (hostLeaves nodes) \<and>
   ((\<forall>n \<in> set nodes. truthy (bn_url n) \<longrightarrow> bm_originalId p \<noteq> Some (bn_id n)) \<longrightarrow>
      p \<notin> set (fst (convertBrowserBookmarks js uuidv4 now nodes storedBookmarks storedCategories))) \<and>
   (\<exists>sto1. syncBookmarks uuidv4 now (root # rest) sto = Inr sto1 \<and>
      list_all2 (\<lambda>b l. bm_originalId b = Some (bn_id l)) (sto_bookmarks sto1) (hostLeavesOfTree root) \<and>
      ((\<forall>l \<in> set (hostLeavesOfTree root). bm_originalId p \<noteq> Some (bn_id l)) \<longrightarrow>
         p \<notin> set (sto_bookmarks sto1)))"
proof -
  have shape: "list_all2 (\<lambda>b n. bm_originalId b = Some (bn_id n) \<and> bn_url n = Some (bm_url b))
      (fst (convertBrowserBookmarks js uuidv4 now nodes storedBookmarks storedCategories))
      (hostLeaves nodes)"
    using convert_shape[of js uuidv4 now nodes storedBookmarks storedCategories] by (rule conjunct1)
  have a: "p \<notin> set (fst (convertBrowserBookmarks js uuidv4 now nodes storedBookmarks storedCategories))"
    if "\<forall>n \<in> set nodes. truthy (bn_url n) \<longrightarrow> bm_originalId p \<noteq> Some (bn_id n)"
  proof (rule list_all2_absent[OF shape])
    show "\<forall>n \<in> set (hostLeaves nodes). bm_originalId p \<noteq> Some (bn_id n)"
      using that by (simp add: hostLeaves_def)
  qed
  obtain sto1 where s: "syncBookmarks uuidv4 now (root # rest) sto = Inr sto1"
    and ids: "list_all2 (\<lambda>b l. bm_originalId b = Some (bn_id l)) (sto_bookmarks sto1) (hostLeavesOfTree root)"
    using sync_shape[of uuidv4 now root rest sto] by blast
  have ids': "list_all2 (\<lambda>b l. bm_originalId b = Some (bn_id l) \<and> True) (sto_bookmarks sto1) (hostLeavesOfTree root)"
    using ids by simp
  have b: "p \<notin> set (sto_bookmarks sto1)"
    if "\<forall>l \<in> set (hostLeavesOfTree root). bm_originalId p \<noteq> Some (bn_id l)"
    by (rule list_all2_absent[OF ids' that])
  from shape a s ids b show ?thesis by blast
qed

theorem sync_keeps_host_records_only_witness:
  "list_all (\<lambda>n. truthy (bn_url n) \<longrightarrow> bm_originalId exampleStale \<noteq> Some (bn_id n)) exampleFlatHost \<and>
   exampleStale \<notin>
     set (fst (convertBrowserBookmarks exampleBuiltins exampleUuid 5 exampleFlatHost [exampleStale] [])) \<and>
   map bm_originalId (fst (convertBrowserBookmarks exampleBuiltins exampleUuid 5 exampleFlatHost [exampleStale] []))
     = [Some ''h1'', Some ''h2''] \<and>
   list_all (\<lambda>l. bm_originalId exampleStale \<noteq> Some (bn_id l)) (hostLeavesOfTree (hd exampleHost)) \<and>
   (\<exists>sto1. syncBookmarks exampleUuid 5 exampleHost (exampleStorage [exampleStale] [] []) = Inr sto1 \<and>
      map bm_originalId (sto_bookmarks sto1) = [Some ''h1'', Some ''h2''] \<and>
      exampleStale \<notin> set (sto_bookmarks sto1))"
proof -
  have h: "\<forall>n \<in> set exampleFlatHost. truthy (bn_url n) \<longrightarrow>
             bm_originalId exampleStale \<noteq> Some (bn_id n)"
    by (simp add: exampleFlatHost_def exampleHostLeaf_def exampleHostFolder_def exampleStale_def)
  have leaves: "hostLeavesOfTree (hd exampleHost) =
      [exampleHostLeaf ''h1'' ''Site A'' ''https://a.example'', exampleHostLeaf ''h2'' ''Site B'' ''https://b.example'']"
    by (simp add: hostLeavesOfTree_def exampleHost_def exampleHostRoot_def exampleHostFolder_def
        exampleHostLeaf_def truthy_def)
  have flat: "hostLeaves exampleFlatHost =
      [exampleHostLeaf ''h1'' ''Site A'' ''https://a.example'', exampleHostLeaf ''h2'' ''Site B'' ''https://b.example'']"
    by (simp add: hostLeaves_def exampleFlatHost_def exampleHostFolder_def exampleHostLeaf_def truthy_def)
  have h2: "\<forall>l \<in> set (hostLeavesOfTree (hd exampleHost)). bm_originalId exampleStale \<noteq> Some (bn_id l)"
    unfolding leaves by (simp add: exampleHostLeaf_def exampleStale_def)
  have host: "exampleHost = hd exampleHost # tl exampleHost"
    by (simp add: exampleHost_def)
  from sync_keeps_host_records_only [of exampleBuiltins exampleUuid 5 exampleFlatHost
      "[exampleStale]" "[]" exampleStale "hd exampleHost" "tl exampleHost"
      "exampleStorage [exampleStale] [] []"] h h2 host
  have both: "list_all2 (\<lambda>b n. bm_originalId b = Some (bn_id n) \<and> bn_url n = Some (bm_url b))
      (fst (convertBrowserBookmarks exampleBuiltins exampleUuid 5 exampleFlatHost [exampleStale] []))
      (hostLeaves exampleFlatHost)"
    and absent: "exampleStale \<notin>
     set (fst (convertBrowserBookmarks exampleBuiltins exampleUuid 5 exampleFlatHost [exampleStale] []))"
    and sync: "\<exists>sto1. syncBookmarks exampleUuid 5 exampleHost (exampleStorage [exampleStale] [] []) = Inr sto1 \<and>
      list_all2 (\<lambda>b l. bm_originalId b = Some (bn_id l)) (sto_bookmarks sto1) (hostLeavesOfTree (hd exampleHost)) \<and>
      exampleStale \<notin> set (sto_bookmarks sto1)"
    by auto
  have ids: "map bm_originalId bs = map (\<lambda>n. Some (bn_id n)) ns"
    if "list_all2 (\<lambda>b n. bm_originalId b = Some (bn_id n) \<and> Q b n) bs ns" for bs ns Q
    using that by (induction rule: list_all2_induct) auto
  have c1: "map bm_originalId (fst (convertBrowserBookmarks exampleBuiltins exampleUuid 5 exampleFlatHost [exampleStale] []))
     = [Some ''h1'', Some ''h2'']"
    using ids[OF both] unfolding flat by (simp add: exampleHostLeaf_def)
  from sync obtain sto1 where s: "syncBookmarks exampleUuid 5 exampleHost (exampleStorage [exampleStale] [] []) = Inr sto1"
    and l: "list_all2 (\<lambda>b l. bm_originalId b = Some (bn_id l) \<and> True) (sto_bookmarks sto1) (hostLeavesOfTree (hd exampleHost))"
    and n: "exampleStale \<notin> set (sto_bookmarks sto1)" by auto
  have c2: "map bm_originalId (sto_bookmarks sto1) = [Some ''h1'', Some ''h2'']"
    using ids[OF l] unfolding leaves by (simp add: exampleHostLeaf_def)
  from h h2 absent c1 s c2 n show ?thesis by (auto simp: list_all_iff)
qed

text \<open>
  C1. \<open>convertBrowserBookmarks\<close> writes \<open>updatedAt: Date.now()\<close> into every record it
  returns, whether or not title and url differ from the stored ones. Run at time 5 on the
  host sequence and again at time 9 on its own output, with the host unchanged: titles and
  urls are the same, and every bookmark's and every category's \<open>updatedAt\<close> moves from 5
  to 9. \<open>syncBookmarks\<close> of the service, run at time 5 and again at time 9 on the same
  nodes, returns the state of its first pass, only the time of the last synchronisation
  being written.
\<close>

theorem convert_resync_updatedAt_drift:
  "map bm_updatedAt (fst exampleFirstPass) = [5, 5] \<and>
   map cat_updatedAt (snd exampleFirstPass) = [5, 5, 5, 5] \<and>
   map bm_updatedAt (fst (convertBrowserBookmarks exampleBuiltins exampleUuid 9 exampleFlatHost
        (fst exampleFirstPass) (snd exampleFirstPass))) = [9, 9] \<and>
   map cat_updatedAt (snd (convertBrowserBookmarks exampleBuiltins exampleUuid 9 exampleFlatHost
        (fst exampleFirstPass) (snd exampleFirstPass))) = [9, 9, 9, 9] \<and>
   map (\<lambda>b. (bm_title b, bm_url b)) (fst (convertBrowserBookmarks exampleBuiltins exampleUuid 9 exampleFlatHost
        (fst exampleFirstPass) (snd exampleFirstPass))) = map (\<lambda>b. (bm_title b, bm_url b)) (fst exampleFirstPass) \<and>
   map_sum (\<lambda>e. e) (\<lambda>s. map bm_updatedAt (sto_bookmarks s))
     (syncBookmarks exampleUuid 5 exampleHost (exampleStorage [] [] [])) = Inr [5, 5] \<and>
   (case syncBookmarks exampleUuid 5 exampleHost (exampleStorage [] [] []) of
      Inl e \<Rightarrow> False
    | Inr sto1 \<Rightarrow> syncBookmarks exampleUuid 9 exampleHost sto1 = Inr (sto1\<lparr>sto_lastSync := 9\<rparr>))"
  by code_simp

text \<open>
  \<open>syncBookmarks\<close> keeps a stored record when its \<open>updatedAt\<close> is not below the
  \<open>dateAdded\<close> of its node (lemma \<open>sync_idempotent\<close> covers the hosts whose nodes are not
  dated after the first pass). On nodes dated 3, passes at times 1 and 2 build the records
  anew.
\<close>

lemma sync_future_dated_example:
  "map_sum (\<lambda>e. e) (\<lambda>s. map bm_updatedAt (sto_bookmarks s))
     (syncBookmarks exampleUuid 1 exampleHost (exampleStorage [] [] [])) = Inr [1, 1] \<and>
   (case syncBookmarks exampleUuid 1 exampleHost (exampleStorage [] [] []) of
      Inl e \<Rightarrow> False
    | Inr sto1 \<Rightarrow>
        map_sum (\<lambda>e. e) (\<lambda>s. map bm_updatedAt (sto_bookmarks s))
          (syncBookmarks exampleUuid 2 exampleHost sto1) = Inr [2, 2])"
  by code_simp

end
